theory Spec2Isabelle
  imports Complex_Main
begin

section \<open>2D advection of a Gaussian: the program advection2D.c\<close>

text \<open>
  The program is one function, \<^verbatim>\<open>main\<close>, made of eleven labelled loops over fixed-size
  arrays. The embedding follows it loop by loop.

  \<^item> The constants declared \<^verbatim>\<open>const\<close> at the top of \<^verbatim>\<open>main\<close> form the record
    \<open>config\<close>; the values the program gives them are \<open>program_config\<close>.
  \<^item> The variables that are assigned (\<^verbatim>\<open>x\<close>, \<^verbatim>\<open>y\<close>, \<^verbatim>\<open>u\<close>, \<^verbatim>\<open>dudt\<close>,
    \<^verbatim>\<open>dx\<close>, \<^verbatim>\<open>dy\<close>, \<^verbatim>\<open>dt\<close>) form the record \<open>state\<close>, passed through every loop
    and returned updated. The temporaries \<^verbatim>\<open>x2\<close>, \<^verbatim>\<open>y2\<close>, \<^verbatim>\<open>Vx\<close>, the
    loop-local \<^verbatim>\<open>y\<close> of LOOP 8 and \<^verbatim>\<open>movingSum\<close> are bound by \<open>let\<close> where they
    are assigned.
  \<^item> A C array is a list; \<^verbatim>\<open>a[i] = v\<close> is \<open>a[i := v]\<close> and \<^verbatim>\<open>a[i][j] = v\<close> is
    \<open>upd2 a i j v\<close>. The declared sizes are the predicate \<open>declared\<close>. Every theorem
    assumes the sizes it needs, so that each index of the loops it speaks about lies
    inside its array.
  \<^item> A \<^verbatim>\<open>for\<close> loop is the recursive function \<open>for_loop\<close>; the OpenMP pragmas only
    distribute iterations that write distinct cells, so each loop is modelled by its
    sequential execution.
  \<^item> The types \<^verbatim>\<open>float\<close> and \<^verbatim>\<open>double\<close> are modelled by the real numbers: rounding,
    overflow, infinities and NaN are not part of the model. A quotient by zero is 0
    in HOL and infinite or NaN in the program, so a theorem whose conclusion depends on
    the value of a quotient assumes that its divisor is not zero. The integer constants
    \<^verbatim>\<open>NX\<close>, \<^verbatim>\<open>NY\<close>, \<^verbatim>\<open>nsteps\<close> and the loop counters are natural numbers.
\<close>

subsection \<open>Constants and variables of main\<close>

record config =
  NX :: nat
  NY :: nat
  xmin :: real
  xmax :: real
  ymin :: real
  ymax :: real
  x0 :: real
  y0 :: real
  sigmax :: real
  sigmay :: real
  bval_left :: real
  bval_right :: real
  bval_lower :: real
  bval_upper :: real
  CFL :: real
  nsteps :: nat
  velx :: real
  vely :: real

definition sigmax2 :: "config \<Rightarrow> real" where
  "sigmax2 c = sigmax c * sigmax c"

definition sigmay2 :: "config \<Rightarrow> real" where
  "sigmay2 c = sigmay c * sigmay c"

text \<open>The values of lines 31 to 58 of the source.\<close>

definition program_config :: config where
  "program_config =
     \<lparr>NX = 1000, NY = 1000, xmin = 0.0, xmax = 30.0, ymin = 0.0, ymax = 30.0,
      x0 = 3.0, y0 = 15.0, sigmax = 1.0, sigmay = 5.0,
      bval_left = 0.0, bval_right = 0.0, bval_lower = 0.0, bval_upper = 0.0,
      CFL = 0.9, nsteps = 800, velx = 1.0, vely = 0.0\<rparr>"

record state =
  x :: "real list"
  y :: "real list"
  u :: "real list list"
  dudt :: "real list list"
  dx :: real
  dy :: real
  dt :: real

text \<open>
  The declarations of lines 62 to 65: \<^verbatim>\<open>float x[NX+2]; float y[NX+2];
  float u[NX+2][NY+2]; float dudt[NX+2][NY+2];\<close>. The array \<^verbatim>\<open>y\<close> is declared with
  \<^verbatim>\<open>NX+2\<close> entries, like \<^verbatim>\<open>x\<close>.
\<close>

definition shape :: "config \<Rightarrow> real list list \<Rightarrow> bool" where
  "shape c a = (length a = NX c + 2 \<and> list_all (\<lambda>r. length r = NY c + 2) a)"

definition declared :: "config \<Rightarrow> state \<Rightarrow> bool" where
  "declared c s =
     (length (x s) = NX c + 2 \<and> length (y s) = NX c + 2 \<and> shape c (u s) \<and> shape c (dudt s))"

text \<open>The assignment \<^verbatim>\<open>a[i][j] = v\<close> to a two-dimensional array.\<close>

definition upd2 :: "real list list \<Rightarrow> nat \<Rightarrow> nat \<Rightarrow> real \<Rightarrow> real list list" where
  "upd2 a i j v = a[i := (a ! i)[j := v]]"

subsection \<open>The for loop\<close>

text \<open>\<^verbatim>\<open>for (int i = lo; i < hi; i++) body\<close>, started with the counter at \<open>i\<close>.\<close>

function for_loop :: "nat \<Rightarrow> nat \<Rightarrow> (nat \<Rightarrow> 's \<Rightarrow> 's) \<Rightarrow> 's \<Rightarrow> 's" where
  "for_loop i hi body s = (if i < hi then for_loop (i + 1) hi body (body i s) else s)"
  by pat_completeness auto
termination
  by (relation "measure (\<lambda>(i, hi, body, s). hi - i)") auto

declare for_loop.simps [simp del]

subsection \<open>Grid spacing, time step, axes and initial conditions\<close>

text \<open>Lines 71, 72 and 77: \<^verbatim>\<open>dx\<close>, \<^verbatim>\<open>dy\<close>, then \<^verbatim>\<open>dt\<close> from them.\<close>

definition init_dx_dy_dt :: "config \<Rightarrow> state \<Rightarrow> state" where
  "init_dx_dy_dt c s =
     (let s = s\<lparr>dx := (xmax c - xmin c) / real (NX c)\<rparr>;
          s = s\<lparr>dy := (ymax c - ymin c) / real (NY c)\<rparr>
      in s\<lparr>dt := CFL c / ((\<bar>(0.2 / 0.41) * ln (ymax c / 1.0)\<bar> / dx s) + (\<bar>vely c\<bar> / dy s))\<rparr>)"

definition LOOP1 :: "config \<Rightarrow> state \<Rightarrow> state" where
  "LOOP1 c = for_loop 0 (NX c + 2) (\<lambda>i s. s\<lparr>x := (x s)[i := (real i - 0.5) * dx s]\<rparr>)"

definition LOOP2 :: "config \<Rightarrow> state \<Rightarrow> state" where
  "LOOP2 c = for_loop 0 (NY c + 2) (\<lambda>j s. s\<lparr>y := (y s)[j := (real j - 0.5) * dy s]\<rparr>)"

definition LOOP3 :: "config \<Rightarrow> state \<Rightarrow> state" where
  "LOOP3 c =
     for_loop 0 (NX c + 2) (\<lambda>i.
       for_loop 0 (NY c + 2) (\<lambda>j s.
         let x2 = (x s ! i - x0 c) * (x s ! i - x0 c);
             y2 = (y s ! j - y0 c) * (y s ! j - y0 c)
         in s\<lparr>u := upd2 (u s) i j
                 (exp (- 1.0 * ((x2 / (2.0 * sigmax2 c)) + (y2 / (2.0 * sigmay2 c)))))\<rparr>))"

subsection \<open>One time step: LOOP 6 to LOOP 9\<close>

definition LOOP6 :: "config \<Rightarrow> state \<Rightarrow> state" where
  "LOOP6 c =
     for_loop 0 (NY c + 2) (\<lambda>j s.
       let s = s\<lparr>u := upd2 (u s) 0 j (bval_left c)\<rparr>
       in s\<lparr>u := upd2 (u s) (NX c + 1) j (bval_right c)\<rparr>)"

definition LOOP7 :: "config \<Rightarrow> state \<Rightarrow> state" where
  "LOOP7 c =
     for_loop 0 (NX c + 2) (\<lambda>i s.
       let s = s\<lparr>u := upd2 (u s) i 0 (bval_lower c)\<rparr>
       in s\<lparr>u := upd2 (u s) i (NY c + 1) (bval_upper c)\<rparr>)"

text \<open>
  The \<^verbatim>\<open>if\<close> statement of lines 157 to 163, as a function of the loop-local \<^verbatim>\<open>y\<close>
  (named \<open>yl\<close> here): the value it stores in \<^verbatim>\<open>dudt[i][j]\<close>.
\<close>

definition LOOP8_rate :: "config \<Rightarrow> state \<Rightarrow> nat \<Rightarrow> nat \<Rightarrow> real \<Rightarrow> real" where
  "LOOP8_rate c s i j yl =
     (if yl > 1 then
        (let Vx = (0.2 / 0.41) * ln (yl / 1.0)
         in - 1 * (Vx * (u s ! i ! j - u s ! (i - 1) ! j) / dx s
                   + vely c * (u s ! i ! j - u s ! i ! (j - 1)) / dy s))
      else
        - 1 * (0 * (u s ! i ! j - u s ! (i - 1) ! j) / dx s
               + vely c * (u s ! i ! j - u s ! i ! (j - 1)) / dy s))"

text \<open>Line 156: \<^verbatim>\<open>y = j*dy\<close>.\<close>

definition LOOP8_y :: "state \<Rightarrow> nat \<Rightarrow> real" where
  "LOOP8_y s j = real j * dy s"

definition LOOP8 :: "config \<Rightarrow> state \<Rightarrow> state" where
  "LOOP8 c =
     for_loop 1 (NX c + 1) (\<lambda>i.
       for_loop 1 (NY c + 1) (\<lambda>j s.
         let yl = LOOP8_y s j
         in s\<lparr>dudt := upd2 (dudt s) i j (LOOP8_rate c s i j yl)\<rparr>))"

definition LOOP9 :: "config \<Rightarrow> state \<Rightarrow> state" where
  "LOOP9 c =
     for_loop 1 (NX c + 1) (\<lambda>i.
       for_loop 1 (NY c + 1) (\<lambda>j s.
         s\<lparr>u := upd2 (u s) i j (u s ! i ! j + dudt s ! i ! j * dt s)\<rparr>))"

text \<open>The body of the time loop, LOOP 5, and the loop itself run for \<open>n\<close> steps.\<close>

definition step :: "config \<Rightarrow> state \<Rightarrow> state" where
  "step c s = LOOP9 c (LOOP8 c (LOOP7 c (LOOP6 c s)))"

definition steps :: "config \<Rightarrow> nat \<Rightarrow> state \<Rightarrow> state" where
  "steps c n = for_loop 0 n (\<lambda>m. step c)"

definition LOOP5 :: "config \<Rightarrow> state \<Rightarrow> state" where
  "LOOP5 c = steps c (nsteps c)"

subsection \<open>The vertical average, LOOP 11, and the whole of main\<close>

text \<open>The rows \<^verbatim>\<open>x[i] yAvg\<close> written to average.dat, in the order they are written.\<close>

definition LOOP11 :: "config \<Rightarrow> state \<Rightarrow> (real \<times> real) list" where
  "LOOP11 c s =
     for_loop 0 (NX c + 2) (\<lambda>i out.
       let movingSum = 0;
           movingSum = for_loop 0 (NY c + 2) (\<lambda>j movingSum. movingSum + u s ! i ! j) movingSum;
           yAvg = movingSum / real (NY c)
       in out @ [(x s ! i, yAvg)]) []"

text \<open>
  Everything before the time loop, and the program: the final variables and the rows of
  average.dat. The files initial.dat and final.dat (LOOP 4 and LOOP 10) print the
  arrays and change no variable.
\<close>

definition initialise :: "config \<Rightarrow> state \<Rightarrow> state" where
  "initialise c s = LOOP3 c (LOOP2 c (LOOP1 c (init_dx_dy_dt c s)))"

definition main :: "config \<Rightarrow> state \<Rightarrow> state \<times> (real \<times> real) list" where
  "main c s = (let s = LOOP5 c (initialise c s) in (s, LOOP11 c s))"

subsection \<open>Reference definitions, in the words of the specification\<close>

text \<open>
  The velocity model of the specification (section 4.3): zero up to the threshold 1,
  logarithmic above it.
\<close>

definition streamwiseVelocity :: "real \<Rightarrow> real" where
  "streamwiseVelocity yl = (if yl > 1 then (0.2 / 0.41) * ln (yl / 1.0) else 0)"

definition interior :: "config \<Rightarrow> nat \<Rightarrow> nat \<Rightarrow> bool" where
  "interior c i j = (1 \<le> i \<and> i \<le> NX c \<and> 1 \<le> j \<and> j \<le> NY c)"

text \<open>
  The two-phase (Jacobi-style) step of section 4.5, on the variables as they are after
  the boundary phase: all rates from the old field, then the Euler update.
\<close>

definition dudt_ref :: "config \<Rightarrow> state \<Rightarrow> nat \<Rightarrow> nat \<Rightarrow> real" where
  "dudt_ref c s i j =
     - (streamwiseVelocity (real j * dy s) * (u s ! i ! j - u s ! (i - 1) ! j) / dx s
        + vely c * (u s ! i ! j - u s ! i ! (j - 1)) / dy s)"

definition two_phase_ref :: "config \<Rightarrow> state \<Rightarrow> real list list" where
  "two_phase_ref c s =
     map (\<lambda>i. map (\<lambda>j. if interior c i j then u s ! i ! j + dudt_ref c s i j * dt s
                        else u s ! i ! j) [0..<NY c + 2]) [0..<NX c + 2]"

subsection \<open>Auxiliary definitions for the proofs\<close>

text \<open>
  A two-dimensional array of \<open>n\<close> rows of \<open>m\<close> entries, by index.
\<close>

definition dims :: "nat \<Rightarrow> nat \<Rightarrow> real list list \<Rightarrow> bool" where
  "dims n m a = (length a = n \<and> (\<forall>i<n. length (a ! i) = m))"

text \<open>
  An inner loop over \<open>j\<close> that assigns to \<open>a[i][j]\<close> a value computed from the
  old \<open>a[i][j]\<close>, and the nest of such loops over \<open>i\<close>: the form of LOOP 3, 8 and 9
  once the variables they only read are fixed.
\<close>

definition row_loop ::
  "(nat \<Rightarrow> real \<Rightarrow> real) \<Rightarrow> nat \<Rightarrow> nat \<Rightarrow> nat \<Rightarrow> real list list \<Rightarrow> real list list" where
  "row_loop h i lo hi a = fold (\<lambda>j a. upd2 a i j (h j (a ! i ! j))) [lo..<hi] a"

definition grid_loop ::
  "(nat \<Rightarrow> nat \<Rightarrow> real \<Rightarrow> real) \<Rightarrow> nat \<Rightarrow> nat \<Rightarrow> nat \<Rightarrow> nat \<Rightarrow>
     real list list \<Rightarrow> real list list" where
  "grid_loop h ilo ihi jlo jhi a = fold (\<lambda>i. row_loop (h i) i jlo jhi) [ilo..<ihi] a"

text \<open>
  The value LOOP 3 stores in \<open>u[i][j]\<close> (lines 110 to 112).
\<close>

definition LOOP3_value :: "config \<Rightarrow> state \<Rightarrow> nat \<Rightarrow> nat \<Rightarrow> real" where
  "LOOP3_value c s i j =
     (let x2 = (x s ! i - x0 c) * (x s ! i - x0 c);
          y2 = (y s ! j - y0 c) * (y s ! j - y0 c)
      in exp (- 1.0 * ((x2 / (2.0 * sigmax2 c)) + (y2 / (2.0 * sigmay2 c)))))"

text \<open>
  LOOP 6 and LOOP 7 on the array \<open>u\<close> alone, run up to the counter \<open>n\<close>, and the
  two in sequence.
\<close>

definition bc_x :: "config \<Rightarrow> nat \<Rightarrow> real list list \<Rightarrow> real list list" where
  "bc_x c n a = fold (\<lambda>j a. upd2 (upd2 a 0 j (bval_left c)) (NX c + 1) j (bval_right c)) [0..<n] a"

definition bc_y :: "config \<Rightarrow> nat \<Rightarrow> real list list \<Rightarrow> real list list" where
  "bc_y c n a = fold (\<lambda>i a. upd2 (upd2 a i 0 (bval_lower c)) i (NY c + 1) (bval_upper c)) [0..<n] a"

definition apply_bc :: "config \<Rightarrow> real list list \<Rightarrow> real list list" where
  "apply_bc c a = bc_y c (NX c + 2) (bc_x c (NY c + 2) a)"

text \<open>
  LOOP 1 and LOOP 2 on the axis array alone, with spacing \<open>d\<close>.
\<close>

definition axis_fill :: "real \<Rightarrow> nat \<Rightarrow> real list \<Rightarrow> real list" where
  "axis_fill d n a = fold (\<lambda>i a. a[i := (real i - 0.5) * d]) [0..<n] a"

text \<open>
  Concrete inputs: the declared arrays filled with zeros, a 2 by 2 grid with four
  different boundary values and spacings 1 and 2, and the program's constants with the
  left boundary value 1, with the domain below y = 1/2, with 3 by 2 cells and with
  2 by 3 cells.
\<close>

definition zeroed :: "config \<Rightarrow> state" where
  "zeroed c =
     \<lparr>x = replicate (NX c + 2) 0, y = replicate (NX c + 2) 0,
      u = replicate (NX c + 2) (replicate (NY c + 2) 0),
      dudt = replicate (NX c + 2) (replicate (NY c + 2) 0),
      dx = 0, dy = 0, dt = 0\<rparr>"

definition tiny_config :: config where
  "tiny_config =
     \<lparr>NX = 2, NY = 2, xmin = 0, xmax = 2, ymin = 0, ymax = 4,
      x0 = 1, y0 = 1, sigmax = 1, sigmay = 1,
      bval_left = 1, bval_right = 2, bval_lower = 3, bval_upper = 4,
      CFL = 0.9, nsteps = 1, velx = 1, vely = 0\<rparr>"

definition tiny_state :: state where
  "tiny_state = (zeroed tiny_config)\<lparr>dx := 1, dy := 2, dt := 0.5\<rparr>"

definition left_one_config :: config where
  "left_one_config = program_config\<lparr>bval_left := 1.0\<rparr>"

definition low_config :: config where
  "low_config = program_config\<lparr>ymax := 0.5\<rparr>"

definition uneven_config :: config where
  "uneven_config = program_config\<lparr>NX := 3, NY := 2\<rparr>"

definition tall_config :: config where
  "tall_config = program_config\<lparr>NX := 2, NY := 3\<rparr>"

section \<open>Properties of the loops\<close>

subsection \<open>Loops as folds, arrays by index\<close>

lemma for_loop_fold: "for_loop i hi body s = fold body [i..<hi] s"
proof (induction i hi body s rule: for_loop.induct)
  case (1 i hi body s)
  show ?case
  proof (cases "i < hi")
    case True
    with 1 show ?thesis
      by (subst for_loop.simps) (simp add: upt_conv_Cons)
  next
    case False
    then show ?thesis by (subst for_loop.simps) simp
  qed
qed

lemma shape_dims: "shape c a = dims (NX c + 2) (NY c + 2) a"
  by (auto simp: shape_def dims_def list_all_length)

lemma dims_upd2: "dims n m a \<Longrightarrow> dims n m (upd2 a i j v)"
  by (cases "i < length a") (auto simp: dims_def upd2_def nth_list_update)

lemma nth_upd2:
  "dims n m a \<Longrightarrow> i < n \<Longrightarrow> j < m \<Longrightarrow>
   upd2 a i j v ! i' ! j' = (if i' = i \<and> j' = j then v else a ! i' ! j')"
  by (auto simp: dims_def upd2_def nth_list_update)

lemma fold_u:
  assumes "\<And>k s a. G k (s\<lparr>u := a\<rparr>) = G k s"
  shows "fold (\<lambda>k s. s\<lparr>u := G k s (u s)\<rparr>) ks s = s\<lparr>u := fold (\<lambda>k. G k s) ks (u s)\<rparr>"
  by (induction ks arbitrary: s) (simp_all add: assms)

lemma fold_dudt:
  assumes "\<And>k s a. G k (s\<lparr>dudt := a\<rparr>) = G k s"
  shows "fold (\<lambda>k s. s\<lparr>dudt := G k s (dudt s)\<rparr>) ks s = s\<lparr>dudt := fold (\<lambda>k. G k s) ks (dudt s)\<rparr>"
  by (induction ks arbitrary: s) (simp_all add: assms)

lemma row_loop_Suc:
  "row_loop h i lo (Suc hi) a =
     (if lo \<le> hi then (let b = row_loop h i lo hi a in upd2 b i hi (h hi (b ! i ! hi))) else a)"
  by (simp add: row_loop_def Let_def)

lemma row_loop_0: "row_loop h i lo 0 a = a"
  by (simp add: row_loop_def)

lemma row_loop_inv:
  assumes "dims n m a" "i < n" "hi \<le> m"
  shows "dims n m (row_loop h i lo hi a) \<and>
         (\<forall>i' j'. row_loop h i lo hi a ! i' ! j' =
            (if i' = i \<and> lo \<le> j' \<and> j' < hi then h j' (a ! i ! j') else a ! i' ! j'))"
  using assms(3)
proof (induction hi)
  case 0
  then show ?case using assms by (simp add: row_loop_0)
next
  case (Suc hi)
  then have IH: "dims n m (row_loop h i lo hi a)"
    "\<And>i' j'. row_loop h i lo hi a ! i' ! j' =
            (if i' = i \<and> lo \<le> j' \<and> j' < hi then h j' (a ! i ! j') else a ! i' ! j')"
    by simp_all
  from Suc.prems have hi: "hi < m" by simp
  show ?case
  proof (cases "lo \<le> hi")
    case True
    then show ?thesis
      using IH(1) hi assms(2)
      by (auto simp: row_loop_Suc Let_def dims_upd2 nth_upd2 [OF IH(1)] IH(2))
  next
    case False
    then show ?thesis using assms(1) by (simp add: row_loop_Suc)
  qed
qed

lemma grid_loop_Suc:
  "grid_loop h ilo (Suc ihi) jlo jhi a =
     (if ilo \<le> ihi then row_loop (h ihi) ihi jlo jhi (grid_loop h ilo ihi jlo jhi a) else a)"
  by (simp add: grid_loop_def)

lemma grid_loop_inv:
  assumes "dims n m a" "ihi \<le> n" "jhi \<le> m"
  shows "dims n m (grid_loop h ilo ihi jlo jhi a) \<and>
         (\<forall>i' j'. grid_loop h ilo ihi jlo jhi a ! i' ! j' =
            (if ilo \<le> i' \<and> i' < ihi \<and> jlo \<le> j' \<and> j' < jhi then h i' j' (a ! i' ! j') else a ! i' ! j'))"
  using assms(2)
proof (induction ihi)
  case 0
  then show ?case using assms by (simp add: grid_loop_def)
next
  case (Suc ihi)
  let ?b = "grid_loop h ilo ihi jlo jhi a"
  from Suc have IH: "dims n m ?b"
    "\<And>i' j'. ?b ! i' ! j' =
            (if ilo \<le> i' \<and> i' < ihi \<and> jlo \<le> j' \<and> j' < jhi then h i' j' (a ! i' ! j') else a ! i' ! j')"
    by simp_all
  from Suc.prems have ihi: "ihi < n" by simp
  note R = row_loop_inv [OF IH(1) ihi assms(3), of "h ihi" jlo]
  show ?case
  proof (cases "ilo \<le> ihi")
    case True
    then show ?thesis
      using R by (auto simp: grid_loop_Suc IH(2))
  next
    case False
    then show ?thesis using assms(1) by (simp add: grid_loop_Suc)
  qed
qed

lemma for_loop_fold': "for_loop i hi body = fold body [i..<hi]"
  by (rule ext) (rule for_loop_fold)

lemma LOOP8_rate_dudt [simp]: "LOOP8_rate c (s\<lparr>dudt := a\<rparr>) = LOOP8_rate c s"
  by (simp add: LOOP8_rate_def fun_eq_iff)

lemma LOOP8_y_dudt [simp]: "LOOP8_y (s\<lparr>dudt := a\<rparr>) = LOOP8_y s"
  by (simp add: LOOP8_y_def fun_eq_iff)

lemma LOOP8_grid:
  "LOOP8 c s =
     s\<lparr>dudt := grid_loop (\<lambda>i j v. LOOP8_rate c s i j (LOOP8_y s j)) 1 (NX c + 1) 1 (NY c + 1) (dudt s)\<rparr>"
proof -
  have "fold (\<lambda>j s. let yl = LOOP8_y s j in s\<lparr>dudt := upd2 (dudt s) i j (LOOP8_rate c s i j yl)\<rparr>) [lo..<hi] s =
      s\<lparr>dudt := row_loop (\<lambda>j v. LOOP8_rate c s i j (LOOP8_y s j)) i lo hi (dudt s)\<rparr>" for i lo hi s
    using fold_dudt [of "\<lambda>j s a. upd2 a i j (LOOP8_rate c s i j (LOOP8_y s j))" "[lo..<hi]" s]
    by (simp add: Let_def row_loop_def)
  then have inner: "fold (\<lambda>j s. let yl = LOOP8_y s j in s\<lparr>dudt := upd2 (dudt s) i j (LOOP8_rate c s i j yl)\<rparr>) [lo..<hi] =
      (\<lambda>s. s\<lparr>dudt := row_loop (\<lambda>j v. LOOP8_rate c s i j (LOOP8_y s j)) i lo hi (dudt s)\<rparr>)" for i lo hi
    by (rule ext)
  have outer: "fold (\<lambda>i s. s\<lparr>dudt := row_loop (\<lambda>j v. LOOP8_rate c s i j (LOOP8_y s j)) i lo hi (dudt s)\<rparr>) is s =
      s\<lparr>dudt := fold (\<lambda>i. row_loop (\<lambda>j v. LOOP8_rate c s i j (LOOP8_y s j)) i lo hi) is (dudt s)\<rparr>" for lo hi "is" s
    using fold_dudt [of "\<lambda>i s. row_loop (\<lambda>j v. LOOP8_rate c s i j (LOOP8_y s j)) i lo hi" "is" s]
    by simp
  show ?thesis
    by (simp only: LOOP8_def for_loop_fold' inner outer grid_loop_def)
qed

lemma LOOP9_grid:
  "LOOP9 c s =
     s\<lparr>u := grid_loop (\<lambda>i j v. v + dudt s ! i ! j * dt s) 1 (NX c + 1) 1 (NY c + 1) (u s)\<rparr>"
proof -
  have "fold (\<lambda>j s. s\<lparr>u := upd2 (u s) i j (u s ! i ! j + dudt s ! i ! j * dt s)\<rparr>) [lo..<hi] s =
      s\<lparr>u := row_loop (\<lambda>j v. v + dudt s ! i ! j * dt s) i lo hi (u s)\<rparr>" for i lo hi s
    using fold_u [of "\<lambda>j s a. upd2 a i j (a ! i ! j + dudt s ! i ! j * dt s)" "[lo..<hi]" s]
    by (simp add: row_loop_def)
  then have inner: "fold (\<lambda>j s. s\<lparr>u := upd2 (u s) i j (u s ! i ! j + dudt s ! i ! j * dt s)\<rparr>) [lo..<hi] =
      (\<lambda>s. s\<lparr>u := row_loop (\<lambda>j v. v + dudt s ! i ! j * dt s) i lo hi (u s)\<rparr>)" for i lo hi
    by (rule ext)
  have outer: "fold (\<lambda>i s. s\<lparr>u := row_loop (\<lambda>j v. v + dudt s ! i ! j * dt s) i lo hi (u s)\<rparr>) is s =
      s\<lparr>u := fold (\<lambda>i. row_loop (\<lambda>j v. v + dudt s ! i ! j * dt s) i lo hi) is (u s)\<rparr>" for lo hi "is" s
    using fold_u [of "\<lambda>i s. row_loop (\<lambda>j v. v + dudt s ! i ! j * dt s) i lo hi" "is" s]
    by simp
  show ?thesis
    by (simp only: LOOP9_def for_loop_fold' inner outer grid_loop_def)
qed

lemma LOOP3_value_u [simp]: "LOOP3_value c (s\<lparr>u := a\<rparr>) = LOOP3_value c s"
  by (simp add: LOOP3_value_def fun_eq_iff)

lemma LOOP3_grid:
  "LOOP3 c s = s\<lparr>u := grid_loop (\<lambda>i j v. LOOP3_value c s i j) 0 (NX c + 2) 0 (NY c + 2) (u s)\<rparr>"
proof -
  have "fold (\<lambda>j s. let x2 = (x s ! i - x0 c) * (x s ! i - x0 c);
             y2 = (y s ! j - y0 c) * (y s ! j - y0 c)
         in s\<lparr>u := upd2 (u s) i j
                 (exp (- 1.0 * ((x2 / (2.0 * sigmax2 c)) + (y2 / (2.0 * sigmay2 c)))))\<rparr>) [lo..<hi] s =
      s\<lparr>u := row_loop (\<lambda>j v. LOOP3_value c s i j) i lo hi (u s)\<rparr>" for i lo hi s
    using fold_u [of "\<lambda>j s a. upd2 a i j (LOOP3_value c s i j)" "[lo..<hi]" s]
    by (simp add: Let_def LOOP3_value_def row_loop_def)
  then have inner: "fold (\<lambda>j s. let x2 = (x s ! i - x0 c) * (x s ! i - x0 c);
             y2 = (y s ! j - y0 c) * (y s ! j - y0 c)
         in s\<lparr>u := upd2 (u s) i j
                 (exp (- 1.0 * ((x2 / (2.0 * sigmax2 c)) + (y2 / (2.0 * sigmay2 c)))))\<rparr>) [lo..<hi] =
      (\<lambda>s. s\<lparr>u := row_loop (\<lambda>j v. LOOP3_value c s i j) i lo hi (u s)\<rparr>)" for i lo hi
    by (rule ext)
  have outer: "fold (\<lambda>i s. s\<lparr>u := row_loop (\<lambda>j v. LOOP3_value c s i j) i lo hi (u s)\<rparr>) is s =
      s\<lparr>u := fold (\<lambda>i. row_loop (\<lambda>j v. LOOP3_value c s i j) i lo hi) is (u s)\<rparr>" for lo hi "is" s
    using fold_u [of "\<lambda>i s. row_loop (\<lambda>j v. LOOP3_value c s i j) i lo hi" "is" s]
    by simp
  show ?thesis
    by (simp only: LOOP3_def for_loop_fold' inner outer grid_loop_def)
qed

subsection \<open>The boundary loops\<close>

lemma LOOP6_bc_x: "LOOP6 c s = s\<lparr>u := bc_x c (NY c + 2) (u s)\<rparr>"
  using fold_u [of "\<lambda>j s a. upd2 (upd2 a 0 j (bval_left c)) (NX c + 1) j (bval_right c)" "[0..<NY c + 2]" s]
  by (simp add: LOOP6_def for_loop_fold bc_x_def Let_def del: upt_Suc)

lemma LOOP7_bc_y: "LOOP7 c s = s\<lparr>u := bc_y c (NX c + 2) (u s)\<rparr>"
  using fold_u [of "\<lambda>i s a. upd2 (upd2 a i 0 (bval_lower c)) i (NY c + 1) (bval_upper c)" "[0..<NX c + 2]" s]
  by (simp add: LOOP7_def for_loop_fold bc_y_def Let_def del: upt_Suc)

lemma bc_x_inv:
  assumes "dims (NX c + 2) (NY c + 2) a" "n \<le> NY c + 2"
  shows "dims (NX c + 2) (NY c + 2) (bc_x c n a) \<and>
         (\<forall>i j. bc_x c n a ! i ! j =
            (if j < n \<and> i = NX c + 1 then bval_right c
             else if j < n \<and> i = 0 then bval_left c else a ! i ! j))"
  using assms(2)
proof (induction n)
  case 0
  then show ?case using assms(1) by (simp add: bc_x_def)
next
  case (Suc n)
  let ?b = "bc_x c n a"
  from Suc have IH: "dims (NX c + 2) (NY c + 2) ?b"
    "\<And>i j. ?b ! i ! j = (if j < n \<and> i = NX c + 1 then bval_right c
             else if j < n \<and> i = 0 then bval_left c else a ! i ! j)"
    by simp_all
  from Suc.prems have n: "n < NY c + 2" by simp
  have step: "bc_x c (Suc n) a = upd2 (upd2 ?b 0 n (bval_left c)) (NX c + 1) n (bval_right c)"
    by (simp add: bc_x_def)
  have d1: "dims (NX c + 2) (NY c + 2) (upd2 ?b 0 n (bval_left c))"
    using IH(1) by (rule dims_upd2)
  have d2: "dims (NX c + 2) (NY c + 2) (bc_x c (Suc n) a)"
    unfolding step using d1 by (rule dims_upd2)
  have "bc_x c (Suc n) a ! i ! j =
            (if j < Suc n \<and> i = NX c + 1 then bval_right c
             else if j < Suc n \<and> i = 0 then bval_left c else a ! i ! j)" for i j
  proof -
    have r1: "upd2 ?b 0 n (bval_left c) ! i ! j =
        (if i = 0 \<and> j = n then bval_left c else ?b ! i ! j)"
      using nth_upd2 [OF IH(1), of 0 n] n by simp
    have r2: "upd2 (upd2 ?b 0 n (bval_left c)) (NX c + 1) n (bval_right c) ! i ! j =
        (if i = NX c + 1 \<and> j = n then bval_right c else upd2 ?b 0 n (bval_left c) ! i ! j)"
      using nth_upd2 [OF d1, of "NX c + 1" n] n by simp
    show ?thesis
      unfolding step r2 r1 IH(2) by (auto simp: less_Suc_eq)
  qed
  with d2 show ?case by blast
qed

lemma bc_y_inv:
  assumes "dims (NX c + 2) (NY c + 2) a" "n \<le> NX c + 2"
  shows "dims (NX c + 2) (NY c + 2) (bc_y c n a) \<and>
         (\<forall>i j. bc_y c n a ! i ! j =
            (if i < n \<and> j = NY c + 1 then bval_upper c
             else if i < n \<and> j = 0 then bval_lower c else a ! i ! j))"
  using assms(2)
proof (induction n)
  case 0
  then show ?case using assms(1) by (simp add: bc_y_def)
next
  case (Suc n)
  let ?b = "bc_y c n a"
  from Suc have IH: "dims (NX c + 2) (NY c + 2) ?b"
    "\<And>i j. ?b ! i ! j = (if i < n \<and> j = NY c + 1 then bval_upper c
             else if i < n \<and> j = 0 then bval_lower c else a ! i ! j)"
    by simp_all
  from Suc.prems have n: "n < NX c + 2" by simp
  have step: "bc_y c (Suc n) a = upd2 (upd2 ?b n 0 (bval_lower c)) n (NY c + 1) (bval_upper c)"
    by (simp add: bc_y_def)
  have d1: "dims (NX c + 2) (NY c + 2) (upd2 ?b n 0 (bval_lower c))"
    using IH(1) by (rule dims_upd2)
  have d2: "dims (NX c + 2) (NY c + 2) (bc_y c (Suc n) a)"
    unfolding step using d1 by (rule dims_upd2)
  have "bc_y c (Suc n) a ! i ! j =
            (if i < Suc n \<and> j = NY c + 1 then bval_upper c
             else if i < Suc n \<and> j = 0 then bval_lower c else a ! i ! j)" for i j
  proof -
    have r1: "upd2 ?b n 0 (bval_lower c) ! i ! j =
        (if i = n \<and> j = 0 then bval_lower c else ?b ! i ! j)"
      using nth_upd2 [OF IH(1), of n 0] n by simp
    have r2: "upd2 (upd2 ?b n 0 (bval_lower c)) n (NY c + 1) (bval_upper c) ! i ! j =
        (if i = n \<and> j = NY c + 1 then bval_upper c else upd2 ?b n 0 (bval_lower c) ! i ! j)"
      using nth_upd2 [OF d1, of n "NY c + 1"] n by simp
    show ?thesis
      unfolding step r2 r1 IH(2) by (auto simp: less_Suc_eq)
  qed
  with d2 show ?case by blast
qed

lemma LOOP7_LOOP6: "LOOP7 c (LOOP6 c s) = s\<lparr>u := apply_bc c (u s)\<rparr>"
  by (simp add: LOOP6_bc_x LOOP7_bc_y apply_bc_def)

lemma apply_bc_dims:
  assumes "dims (NX c + 2) (NY c + 2) a"
  shows "dims (NX c + 2) (NY c + 2) (apply_bc c a)"
  using bc_x_inv [OF assms, of "NY c + 2"] bc_y_inv [of c "bc_x c (NY c + 2) a" "NX c + 2"]
  by (simp add: apply_bc_def)

lemma apply_bc_nth:
  assumes "dims (NX c + 2) (NY c + 2) a" "i < NX c + 2" "j < NY c + 2"
  shows "apply_bc c a ! i ! j =
           (if j = NY c + 1 then bval_upper c
            else if j = 0 then bval_lower c
            else if i = NX c + 1 then bval_right c
            else if i = 0 then bval_left c
            else a ! i ! j)"
proof -
  note X = bc_x_inv [OF assms(1), of "NY c + 2"]
  from X have d: "dims (NX c + 2) (NY c + 2) (bc_x c (NY c + 2) a)" by simp
  note Y = bc_y_inv [OF d, of "NX c + 2"]
  from X have x: "bc_x c (NY c + 2) a ! i ! j =
            (if j < NY c + 2 \<and> i = NX c + 1 then bval_right c
             else if j < NY c + 2 \<and> i = 0 then bval_left c else a ! i ! j)"
    by blast
  from Y have y: "bc_y c (NX c + 2) (bc_x c (NY c + 2) a) ! i ! j =
            (if i < NX c + 2 \<and> j = NY c + 1 then bval_upper c
             else if i < NX c + 2 \<and> j = 0 then bval_lower c else bc_x c (NY c + 2) a ! i ! j)"
    by blast
  show ?thesis
    unfolding apply_bc_def y x using assms(2,3) by simp
qed

lemma dims_eqI:
  assumes "dims n m a" "dims n m b" "\<And>i j. i < n \<Longrightarrow> j < m \<Longrightarrow> a ! i ! j = b ! i ! j"
  shows "a = b"
proof (rule nth_equalityI)
  show "length a = length b" using assms(1,2) by (simp add: dims_def)
next
  fix i assume i: "i < length a"
  then have "i < n" using assms(1) by (simp add: dims_def)
  then have la: "length (a ! i) = m" and lb: "length (b ! i) = m"
    using assms(1,2) by (simp_all add: dims_def)
  show "a ! i = b ! i"
  proof (rule nth_equalityI)
    show "length (a ! i) = length (b ! i)" using la lb by simp
  next
    fix j assume "j < length (a ! i)"
    then show "a ! i ! j = b ! i ! j" using assms(3) [OF \<open>i < n\<close>] la by simp
  qed
qed

subsection \<open>The rate and update loops, and the step\<close>

lemma interior_iff: "interior c i j \<longleftrightarrow> 1 \<le> i \<and> i < NX c + 1 \<and> 1 \<le> j \<and> j < NY c + 1"
  by (auto simp: interior_def)

lemma LOOP8_dudt:
  assumes "shape c (dudt s)"
  shows "shape c (dudt (LOOP8 c s))"
    and "dudt (LOOP8 c s) ! i ! j =
           (if interior c i j then LOOP8_rate c s i j (LOOP8_y s j) else dudt s ! i ! j)"
proof -
  from assms have d: "dims (NX c + 2) (NY c + 2) (dudt s)" by (simp add: shape_dims)
  note G = grid_loop_inv [OF d, of "NX c + 1" "NY c + 1"
      "\<lambda>i j v. LOOP8_rate c s i j (LOOP8_y s j)" 1 1]
  show "shape c (dudt (LOOP8 c s))"
    using G by (simp add: LOOP8_grid shape_dims)
  show "dudt (LOOP8 c s) ! i ! j =
           (if interior c i j then LOOP8_rate c s i j (LOOP8_y s j) else dudt s ! i ! j)"
    using G by (simp add: LOOP8_grid interior_iff)
qed

lemma LOOP9_u:
  assumes "shape c (u s)"
  shows "shape c (u (LOOP9 c s))"
    and "u (LOOP9 c s) ! i ! j =
           (if interior c i j then u s ! i ! j + dudt s ! i ! j * dt s else u s ! i ! j)"
proof -
  from assms have d: "dims (NX c + 2) (NY c + 2) (u s)" by (simp add: shape_dims)
  note G = grid_loop_inv [OF d, of "NX c + 1" "NY c + 1"
      "\<lambda>i j v. v + dudt s ! i ! j * dt s" 1 1]
  show "shape c (u (LOOP9 c s))"
    using G by (simp add: LOOP9_grid shape_dims)
  show "u (LOOP9 c s) ! i ! j =
           (if interior c i j then u s ! i ! j + dudt s ! i ! j * dt s else u s ! i ! j)"
    using G by (simp add: LOOP9_grid interior_iff)
qed

lemma LOOP3_u:
  assumes "shape c (u s)"
  shows "shape c (u (LOOP3 c s))"
    and "i < NX c + 2 \<Longrightarrow> j < NY c + 2 \<Longrightarrow> u (LOOP3 c s) ! i ! j = LOOP3_value c s i j"
proof -
  from assms have d: "dims (NX c + 2) (NY c + 2) (u s)" by (simp add: shape_dims)
  note G = grid_loop_inv [OF d, of "NX c + 2" "NY c + 2" "\<lambda>i j v. LOOP3_value c s i j" 0 0]
  show "shape c (u (LOOP3 c s))"
    using G by (simp add: LOOP3_grid shape_dims)
  show "i < NX c + 2 \<Longrightarrow> j < NY c + 2 \<Longrightarrow> u (LOOP3 c s) ! i ! j = LOOP3_value c s i j"
    using G by (simp add: LOOP3_grid)
qed

lemma frame_LOOP8 [simp]:
  "x (LOOP8 c s) = x s" "y (LOOP8 c s) = y s" "u (LOOP8 c s) = u s"
  "dx (LOOP8 c s) = dx s" "dy (LOOP8 c s) = dy s" "dt (LOOP8 c s) = dt s"
  by (simp_all add: LOOP8_grid)

lemma frame_LOOP9 [simp]:
  "x (LOOP9 c s) = x s" "y (LOOP9 c s) = y s" "dudt (LOOP9 c s) = dudt s"
  "dx (LOOP9 c s) = dx s" "dy (LOOP9 c s) = dy s" "dt (LOOP9 c s) = dt s"
  by (simp_all add: LOOP9_grid)

lemma frame_LOOP3 [simp]:
  "x (LOOP3 c s) = x s" "y (LOOP3 c s) = y s" "dudt (LOOP3 c s) = dudt s"
  "dx (LOOP3 c s) = dx s" "dy (LOOP3 c s) = dy s" "dt (LOOP3 c s) = dt s"
  by (simp_all add: LOOP3_grid)

lemma frame_bc [simp]:
  "x (LOOP7 c (LOOP6 c s)) = x s" "y (LOOP7 c (LOOP6 c s)) = y s"
  "dudt (LOOP7 c (LOOP6 c s)) = dudt s" "u (LOOP7 c (LOOP6 c s)) = apply_bc c (u s)"
  "dx (LOOP7 c (LOOP6 c s)) = dx s" "dy (LOOP7 c (LOOP6 c s)) = dy s"
  "dt (LOOP7 c (LOOP6 c s)) = dt s"
  by (simp_all add: LOOP7_LOOP6)

lemma frame_step [simp]:
  "x (step c s) = x s" "y (step c s) = y s"
  "dx (step c s) = dx s" "dy (step c s) = dy s" "dt (step c s) = dt s"
  by (simp_all add: step_def)

lemma shape_apply_bc: "shape c a \<Longrightarrow> shape c (apply_bc c a)"
  unfolding shape_dims by (rule apply_bc_dims)

lemma shape_step:
  assumes "shape c (u s)" "shape c (dudt s)"
  shows "shape c (u (step c s))" "shape c (dudt (step c s))"
proof -
  let ?b = "LOOP7 c (LOOP6 c s)"
  have ub: "shape c (u ?b)" using assms(1) by (simp add: shape_apply_bc)
  have db: "shape c (dudt ?b)" using assms(2) by simp
  have "shape c (u (LOOP8 c ?b))" using ub by simp
  then show "shape c (u (step c s))" unfolding step_def by (rule LOOP9_u(1))
  show "shape c (dudt (step c s))" unfolding step_def using LOOP8_dudt(1) [OF db] by simp
qed

lemma u_step:
  assumes "shape c (u s)" "shape c (dudt s)"
  shows "u (step c s) ! i ! j =
     (let b = LOOP7 c (LOOP6 c s) in
      if interior c i j then u b ! i ! j + LOOP8_rate c b i j (LOOP8_y b j) * dt b
      else u b ! i ! j)"
proof -
  let ?b = "LOOP7 c (LOOP6 c s)"
  have ub: "shape c (u (LOOP8 c ?b))" using assms(1) by (simp add: shape_apply_bc)
  have db: "shape c (dudt ?b)" using assms(2) by simp
  show ?thesis
    unfolding step_def Let_def LOOP9_u(2) [OF ub] LOOP8_dudt(2) [OF db]
    by simp
qed

lemma steps_0 [simp]: "steps c 0 s = s"
  by (simp add: steps_def for_loop_fold)

lemma steps_Suc [simp]: "steps c (Suc n) s = step c (steps c n s)"
  by (simp add: steps_def for_loop_fold)

lemma frame_steps [simp]:
  "x (steps c n s) = x s" "y (steps c n s) = y s"
  "dx (steps c n s) = dx s" "dy (steps c n s) = dy s" "dt (steps c n s) = dt s"
  by (induction n) simp_all

lemma shape_steps:
  assumes "shape c (u s)" "shape c (dudt s)"
  shows "shape c (u (steps c n s)) \<and> shape c (dudt (steps c n s))"
  by (induction n) (simp_all add: assms shape_step)

subsection \<open>Axes, vertical average and initial values\<close>

lemma fold_x:
  assumes "\<And>k s a. G k (s\<lparr>x := a\<rparr>) = G k s"
  shows "fold (\<lambda>k s. s\<lparr>x := G k s (x s)\<rparr>) ks s = s\<lparr>x := fold (\<lambda>k. G k s) ks (x s)\<rparr>"
  by (induction ks arbitrary: s) (simp_all add: assms)

lemma fold_y:
  assumes "\<And>k s a. G k (s\<lparr>y := a\<rparr>) = G k s"
  shows "fold (\<lambda>k s. s\<lparr>y := G k s (y s)\<rparr>) ks s = s\<lparr>y := fold (\<lambda>k. G k s) ks (y s)\<rparr>"
  by (induction ks arbitrary: s) (simp_all add: assms)

lemma LOOP1_axis: "LOOP1 c s = s\<lparr>x := axis_fill (dx s) (NX c + 2) (x s)\<rparr>"
  using fold_x [of "\<lambda>i s a. a[i := (real i - 0.5) * dx s]" "[0..<NX c + 2]" s]
  by (simp add: LOOP1_def for_loop_fold axis_fill_def del: upt_Suc)

lemma LOOP2_axis: "LOOP2 c s = s\<lparr>y := axis_fill (dy s) (NY c + 2) (y s)\<rparr>"
  using fold_y [of "\<lambda>j s a. a[j := (real j - 0.5) * dy s]" "[0..<NY c + 2]" s]
  by (simp add: LOOP2_def for_loop_fold axis_fill_def del: upt_Suc)

lemma axis_fill_inv:
  assumes "n \<le> length a"
  shows "length (axis_fill d n a) = length a \<and>
         (\<forall>k. axis_fill d n a ! k = (if k < n then (real k - 0.5) * d else a ! k))"
  using assms
proof (induction n)
  case 0
  then show ?case by (simp add: axis_fill_def)
next
  case (Suc n)
  then have IH: "length (axis_fill d n a) = length a"
    "\<And>k. axis_fill d n a ! k = (if k < n then (real k - 0.5) * d else a ! k)"
    by simp_all
  have step: "axis_fill d (Suc n) a = (axis_fill d n a)[n := (real n - 0.5) * d]"
    by (simp add: axis_fill_def)
  from Suc.prems have n: "n < length (axis_fill d n a)" using IH(1) by simp
  show ?case
    unfolding step using n IH(1) by (auto simp: nth_list_update IH(2) less_Suc_eq)
qed

lemma take_axis_fill:
  assumes "n \<le> length a"
  shows "take n (axis_fill d n a) = map (\<lambda>i. (real i - 0.5) * d) [0..<n]"
  using axis_fill_inv [OF assms, of d] assms
  by (intro nth_equalityI) simp_all

lemma axis_increasing:
  assumes "0 < d" "i < k"
  shows "(real i - 0.5) * d < (real k - 0.5) * d"
  using assms by simp

lemma sum_loop: "fold (\<lambda>j m. m + f j) [0..<n] (0::real) = (\<Sum>j = 0..<n. f j)"
  by (induction n) simp_all

lemma rows_loop: "fold (\<lambda>i out. out @ [g i]) [0..<n] [] = map g [0..<n]"
  by (induction n) simp_all

lemma LOOP11_rows:
  "LOOP11 c s =
     map (\<lambda>i. (x s ! i, (\<Sum>j = 0..<NY c + 2. u s ! i ! j) / real (NY c))) [0..<NX c + 2]"
proof -
  have inner: "fold (\<lambda>j movingSum. movingSum + u s ! i ! j) [0..<n] 0 = (\<Sum>j = 0..<n. u s ! i ! j)" for n i
    by (rule sum_loop)
  show ?thesis
    unfolding LOOP11_def Let_def for_loop_fold inner by (rule rows_loop)
qed

lemma init_fields [simp]:
  "x (init_dx_dy_dt c s) = x s" "y (init_dx_dy_dt c s) = y s"
  "u (init_dx_dy_dt c s) = u s" "dudt (init_dx_dy_dt c s) = dudt s"
  "dx (init_dx_dy_dt c s) = (xmax c - xmin c) / real (NX c)"
  "dy (init_dx_dy_dt c s) = (ymax c - ymin c) / real (NY c)"
  "dt (init_dx_dy_dt c s) =
     CFL c / (\<bar>(0.2 / 0.41) * ln (ymax c / 1.0)\<bar> / ((xmax c - xmin c) / real (NX c))
              + \<bar>vely c\<bar> / ((ymax c - ymin c) / real (NY c)))"
  by (simp_all add: init_dx_dy_dt_def Let_def)

lemma frame_LOOP1 [simp]:
  "y (LOOP1 c s) = y s" "u (LOOP1 c s) = u s" "dudt (LOOP1 c s) = dudt s"
  "dx (LOOP1 c s) = dx s" "dy (LOOP1 c s) = dy s" "dt (LOOP1 c s) = dt s"
  by (simp_all add: LOOP1_axis)

lemma frame_LOOP2 [simp]:
  "x (LOOP2 c s) = x s" "u (LOOP2 c s) = u s" "dudt (LOOP2 c s) = dudt s"
  "dx (LOOP2 c s) = dx s" "dy (LOOP2 c s) = dy s" "dt (LOOP2 c s) = dt s"
  by (simp_all add: LOOP2_axis)

lemma x_LOOP1:
  assumes "length (x s) = NX c + 2"
  shows "length (x (LOOP1 c s)) = NX c + 2"
    and "i < NX c + 2 \<Longrightarrow> x (LOOP1 c s) ! i = (real i - 0.5) * dx s"
    and "x (LOOP1 c s) = map (\<lambda>i. (real i - 0.5) * dx s) [0..<NX c + 2]"
proof -
  have le: "NX c + 2 \<le> length (x s)" using assms by simp
  note A = axis_fill_inv [OF le, of "dx s"]
  show l: "length (x (LOOP1 c s)) = NX c + 2" using A assms by (simp add: LOOP1_axis)
  show "i < NX c + 2 \<Longrightarrow> x (LOOP1 c s) ! i = (real i - 0.5) * dx s"
    using A by (simp add: LOOP1_axis)
  have "take (NX c + 2) (x (LOOP1 c s)) = map (\<lambda>i. (real i - 0.5) * dx s) [0..<NX c + 2]"
    using take_axis_fill [OF le] by (simp add: LOOP1_axis)
  then show "x (LOOP1 c s) = map (\<lambda>i. (real i - 0.5) * dx s) [0..<NX c + 2]"
    using l by simp
qed

lemma y_LOOP2:
  assumes "length (y s) = NX c + 2" "NY c \<le> NX c"
  shows "length (y (LOOP2 c s)) = NX c + 2"
    and "j < NY c + 2 \<Longrightarrow> y (LOOP2 c s) ! j = (real j - 0.5) * dy s"
    and "take (NY c + 2) (y (LOOP2 c s)) = map (\<lambda>j. (real j - 0.5) * dy s) [0..<NY c + 2]"
proof -
  have le: "NY c + 2 \<le> length (y s)" using assms by simp
  note A = axis_fill_inv [OF le, of "dy s"]
  show "length (y (LOOP2 c s)) = NX c + 2" using A assms by (simp add: LOOP2_axis)
  show "j < NY c + 2 \<Longrightarrow> y (LOOP2 c s) ! j = (real j - 0.5) * dy s"
    using A by (simp add: LOOP2_axis)
  show "take (NY c + 2) (y (LOOP2 c s)) = map (\<lambda>j. (real j - 0.5) * dy s) [0..<NY c + 2]"
    using take_axis_fill [OF le] by (simp add: LOOP2_axis)
qed

subsection \<open>The concrete inputs and the reference step\<close>

lemma shape_replicate: "n = NX c + 2 \<Longrightarrow> m = NY c + 2 \<Longrightarrow> shape c (replicate n (replicate m v))"
  by (simp add: shape_def list_all_iff del: replicate.simps)

lemma declared_zeroed: "declared c (zeroed c)"
  by (simp add: declared_def zeroed_def shape_replicate del: replicate.simps)

lemma tiny_fields [simp]:
  "NX tiny_config = 2" "NY tiny_config = 2" "vely tiny_config = 0"
  "bval_left tiny_config = 1" "bval_right tiny_config = 2"
  "bval_lower tiny_config = 3" "bval_upper tiny_config = 4"
  by (simp_all add: tiny_config_def)

lemma tiny_state_fields [simp]:
  "dx tiny_state = 1" "dy tiny_state = 2" "dt tiny_state = 0.5"
  by (simp_all add: tiny_state_def zeroed_def)

lemma shape_tiny_state [simp]:
  "shape tiny_config (u tiny_state)" "shape tiny_config (dudt tiny_state)"
  by (simp_all add: tiny_state_def zeroed_def shape_replicate del: replicate.simps)

lemma u_tiny_state [simp]: "i < 4 \<Longrightarrow> j < 4 \<Longrightarrow> u tiny_state ! i ! j = 0"
  by (simp add: tiny_state_def zeroed_def del: replicate.simps)

lemma rate_is_ref: "LOOP8_rate c s i j (LOOP8_y s j) = dudt_ref c s i j"
  by (simp add: LOOP8_rate_def LOOP8_y_def dudt_ref_def streamwiseVelocity_def Let_def)

lemma two_phase_ref_dims: "dims (NX c + 2) (NY c + 2) (two_phase_ref c s)"
  by (simp add: dims_def two_phase_ref_def del: upt_Suc)

lemma two_phase_ref_nth:
  "i < NX c + 2 \<Longrightarrow> j < NY c + 2 \<Longrightarrow>
   two_phase_ref c s ! i ! j =
     (if interior c i j then u s ! i ! j + dudt_ref c s i j * dt s else u s ! i ! j)"
  by (simp add: two_phase_ref_def del: upt_Suc)

lemma LOOP9_LOOP8_ref:
  assumes "shape c (u s)" "shape c (dudt s)"
  shows "u (LOOP9 c (LOOP8 c s)) = two_phase_ref c s"
proof (rule dims_eqI [OF _ two_phase_ref_dims])
  have us: "shape c (u (LOOP8 c s))" using assms(1) by simp
  show "dims (NX c + 2) (NY c + 2) (u (LOOP9 c (LOOP8 c s)))"
    using LOOP9_u(1) [OF us] by (simp add: shape_dims)
  fix i j assume "i < NX c + 2" "j < NY c + 2"
  then show "u (LOOP9 c (LOOP8 c s)) ! i ! j = two_phase_ref c s ! i ! j"
    by (simp add: LOOP9_u(2) [OF us] LOOP8_dudt(2) [OF assms(2)] two_phase_ref_nth rate_is_ref)
qed

subsection \<open>The state before the time loop\<close>

lemma shape_initialise:
  assumes "declared c s"
  shows "shape c (u (initialise c s))" "shape c (dudt (initialise c s))"
proof -
  from assms have "shape c (u (LOOP2 c (LOOP1 c (init_dx_dy_dt c s))))"
    by (simp add: declared_def)
  then show "shape c (u (initialise c s))"
    unfolding initialise_def by (rule LOOP3_u(1))
  show "shape c (dudt (initialise c s))"
    using assms by (simp add: initialise_def declared_def)
qed

lemma main_run:
  "main c s =
     (steps c (nsteps c) (initialise c s), LOOP11 c (steps c (nsteps c) (initialise c s)))"
  by (simp add: main_def LOOP5_def Let_def)

lemma frame_initialise [simp]:
  "dx (initialise c s) = (xmax c - xmin c) / real (NX c)"
  "dy (initialise c s) = (ymax c - ymin c) / real (NY c)"
  "dt (initialise c s) = dt (init_dx_dy_dt c s)"
  by (simp_all add: initialise_def)

lemma x_initialise:
  assumes "declared c s"
  shows "x (initialise c s) = map (\<lambda>i. (real i - 0.5) * ((xmax c - xmin c) / real (NX c))) [0..<NX c + 2]"
proof -
  have "length (x (init_dx_dy_dt c s)) = NX c + 2" using assms by (simp add: declared_def)
  from x_LOOP1(3) [OF this] show ?thesis by (simp add: initialise_def)
qed

lemma y_initialise:
  assumes "declared c s" "NY c \<le> NX c"
  shows "take (NY c + 2) (y (initialise c s)) =
           map (\<lambda>j. (real j - 0.5) * ((ymax c - ymin c) / real (NY c))) [0..<NY c + 2]"
    and "j < NY c + 2 \<Longrightarrow> y (initialise c s) ! j = (real j - 0.5) * ((ymax c - ymin c) / real (NY c))"
proof -
  have l: "length (y (LOOP1 c (init_dx_dy_dt c s))) = NX c + 2"
    using assms by (simp add: declared_def)
  from y_LOOP2(3) [OF l assms(2)] show "take (NY c + 2) (y (initialise c s)) =
           map (\<lambda>j. (real j - 0.5) * ((ymax c - ymin c) / real (NY c))) [0..<NY c + 2]"
    by (simp add: initialise_def)
  from y_LOOP2(2) [OF l assms(2)]
  show "j < NY c + 2 \<Longrightarrow> y (initialise c s) ! j = (real j - 0.5) * ((ymax c - ymin c) / real (NY c))"
    by (simp add: initialise_def)
qed

lemma u_initialise:
  assumes "declared c s" "i < NX c + 2" "j < NY c + 2"
  shows "u (initialise c s) ! i ! j = LOOP3_value c (initialise c s) i j"
proof -
  let ?p = "LOOP2 c (LOOP1 c (init_dx_dy_dt c s))"
  from assms(1) have "shape c (u ?p)" by (simp add: declared_def)
  from LOOP3_u(2) [OF this assms(2,3)]
  have "u (initialise c s) ! i ! j = LOOP3_value c ?p i j" by (simp add: initialise_def)
  also have "\<dots> = LOOP3_value c (initialise c s) i j"
    by (simp add: LOOP3_value_def initialise_def)
  finally show ?thesis .
qed

lemma u_LOOP6:
  assumes "shape c (u s)"
  shows "u (LOOP6 c s) ! i ! j =
           (if j < NY c + 2 \<and> i = NX c + 1 then bval_right c
            else if j < NY c + 2 \<and> i = 0 then bval_left c else u s ! i ! j)"
proof -
  from assms have d: "dims (NX c + 2) (NY c + 2) (u s)" by (simp add: shape_dims)
  from bc_x_inv [OF d, of "NY c + 2"] show ?thesis by (simp add: LOOP6_bc_x)
qed

lemma u_bc:
  assumes "shape c (u s)" "i < NX c + 2" "j < NY c + 2"
  shows "u (LOOP7 c (LOOP6 c s)) ! i ! j =
           (if j = NY c + 1 then bval_upper c
            else if j = 0 then bval_lower c
            else if i = NX c + 1 then bval_right c
            else if i = 0 then bval_left c
            else u s ! i ! j)"
proof -
  from assms(1) have d: "dims (NX c + 2) (NY c + 2) (u s)" by (simp add: shape_dims)
  from apply_bc_nth [OF d assms(2,3)] show ?thesis by simp
qed

lemma u_step_ghost:
  assumes "shape c (u s)" "shape c (dudt s)" "i < NX c + 2" "j < NY c + 2" "\<not> interior c i j"
  shows "u (step c s) ! i ! j = u (LOOP7 c (LOOP6 c s)) ! i ! j"
  using u_step [OF assms(1,2), of i j] assms(5) by (simp add: Let_def)

subsection \<open>Ghost cells and still fields\<close>

lemma u_steps_ghost:
  assumes "shape c (u s)" "shape c (dudt s)" "i < NX c + 2" "j < NY c + 2" "\<not> interior c i j"
  shows "u (steps c (Suc m) s) ! i ! j =
           (if j = NY c + 1 then bval_upper c
            else if j = 0 then bval_lower c
            else if i = NX c + 1 then bval_right c
            else bval_left c)"
proof -
  let ?t = "steps c m s"
  from shape_steps [OF assms(1,2), of m]
  have t: "shape c (u ?t)" "shape c (dudt ?t)" by simp_all
  have "u (steps c (Suc m) s) ! i ! j = u (LOOP7 c (LOOP6 c ?t)) ! i ! j"
    using u_step_ghost [OF t assms(3,4,5)] by simp
  also have "\<dots> = (if j = NY c + 1 then bval_upper c
            else if j = 0 then bval_lower c
            else if i = NX c + 1 then bval_right c
            else bval_left c)"
    using assms(3,4,5) unfolding u_bc [OF t(1) assms(3,4)]
    by (auto simp: interior_def)
  finally show ?thesis .
qed

lemma apply_bc_idem:
  assumes "dims (NX c + 2) (NY c + 2) a"
  shows "apply_bc c (apply_bc c a) = apply_bc c a"
proof (rule dims_eqI)
  note d = apply_bc_dims [OF assms]
  show "dims (NX c + 2) (NY c + 2) (apply_bc c (apply_bc c a))" using d by (rule apply_bc_dims)
  show "dims (NX c + 2) (NY c + 2) (apply_bc c a)" by (rule d)
  fix i j assume ij: "i < NX c + 2" "j < NY c + 2"
  show "apply_bc c (apply_bc c a) ! i ! j = apply_bc c a ! i ! j"
    unfolding apply_bc_nth [OF d ij] apply_bc_nth [OF assms ij] by simp
qed

lemma rate_zero:
  assumes "vely c = 0" "yl \<le> 1"
  shows "LOOP8_rate c s i j yl = 0"
  using assms by (simp add: LOOP8_rate_def)

lemma LOOP8_y_frame [simp]:
  "LOOP8_y (LOOP7 c (LOOP6 c s)) j = LOOP8_y s j" "LOOP8_y (steps c n s) j = LOOP8_y s j"
  by (simp_all add: LOOP8_y_def)

lemma step_still:
  assumes "shape c (u s)" "shape c (dudt s)" "vely c = 0"
    and "\<forall>j. 1 \<le> j \<and> j \<le> NY c \<longrightarrow> LOOP8_y s j \<le> 1"
  shows "u (step c s) = apply_bc c (u s)"
proof (rule dims_eqI)
  show "dims (NX c + 2) (NY c + 2) (u (step c s))"
    using shape_step(1) [OF assms(1,2)] by (simp add: shape_dims)
  show "dims (NX c + 2) (NY c + 2) (apply_bc c (u s))"
    using shape_apply_bc [OF assms(1)] by (simp add: shape_dims)
  fix i j assume "i < NX c + 2" "j < NY c + 2"
  have "interior c i j \<Longrightarrow> LOOP8_rate c (LOOP7 c (LOOP6 c s)) i j (LOOP8_y s j) = 0"
    using assms(3,4) by (intro rate_zero) (simp_all add: interior_def)
  then show "u (step c s) ! i ! j = apply_bc c (u s) ! i ! j"
    unfolding u_step [OF assms(1,2)] by (simp add: Let_def)
qed

lemma steps_still:
  assumes "shape c (u s)" "shape c (dudt s)" "vely c = 0"
    and "\<forall>j. 1 \<le> j \<and> j \<le> NY c \<longrightarrow> LOOP8_y s j \<le> 1"
  shows "u (steps c (Suc n) s) = apply_bc c (u s)"
proof (induction n)
  case 0
  show ?case using step_still [OF assms] by simp
next
  case (Suc n)
  let ?t = "steps c (Suc n) s"
  from shape_steps [OF assms(1,2), of "Suc n"]
  have t: "shape c (u ?t)" "shape c (dudt ?t)" by simp_all
  have y: "\<forall>j. 1 \<le> j \<and> j \<le> NY c \<longrightarrow> LOOP8_y ?t j \<le> 1"
    using assms(4) by (simp only: LOOP8_y_frame) 
  have "u (steps c (Suc (Suc n)) s) = u (step c ?t)" by (simp only: steps_Suc)
  also have "\<dots> = apply_bc c (u ?t)" using t assms(3) y by (rule step_still)
  also have "\<dots> = apply_bc c (apply_bc c (u s))" by (simp only: Suc.IH)
  also have "\<dots> = apply_bc c (u s)"
    using assms(1) by (intro apply_bc_idem) (simp add: shape_dims)
  finally show ?case .
qed

lemma tiny_more [simp]:
  "xmin tiny_config = 0" "xmax tiny_config = 2" "ymin tiny_config = 0" "ymax tiny_config = 4"
  "x0 tiny_config = 1" "y0 tiny_config = 1" "sigmax tiny_config = 1" "sigmay tiny_config = 1"
  by (simp_all add: tiny_config_def)

lemma half_cell: "real j * d - (real j - 0.5) * d = d / 2"
  by (simp add: algebra_simps)

subsection \<open>The divisor of the time step, the axes as arrays\<close>

lemma time_step_divisor:
  assumes "0 < NX c" "xmin c < xmax c" "0 < NY c" "ymin c < ymax c"
    and "0 < ymax c" "ymax c \<noteq> 1"
  shows "0 < \<bar>(0.2 / 0.41) * ln (ymax c / 1.0)\<bar> / dx (initialise c s)
             + \<bar>vely c\<bar> / dy (initialise c s)"
proof -
  have "ln (ymax c) \<noteq> 0" using assms(5,6) by simp
  then have "0 < \<bar>(0.2 / 0.41) * ln (ymax c / 1.0)\<bar>" by simp
  moreover have "0 < dx (initialise c s)" using assms(1,2) by simp
  ultimately have "0 < \<bar>(0.2 / 0.41) * ln (ymax c / 1.0)\<bar> / dx (initialise c s)"
    by (rule divide_pos_pos)
  moreover have "0 \<le> \<bar>vely c\<bar> / dy (initialise c s)"
  proof (rule divide_nonneg_pos)
    show "0 \<le> \<bar>vely c\<bar>" by simp
    show "0 < dy (initialise c s)" using assms(3,4) by simp
  qed
  ultimately show ?thesis by linarith
qed

lemma length_axis_fill: "length (axis_fill d n a) = length a"
  by (induction n) (simp_all add: axis_fill_def)

lemma y_length_declared:
  assumes "declared c s"
  shows "length (y (initialise c s)) = NX c + 2"
  using assms by (simp add: initialise_def LOOP2_axis length_axis_fill declared_def)

lemma uneven_fields [simp]:
  "NX uneven_config = 3" "NY uneven_config = 2"
  "ymin uneven_config = 0" "ymax uneven_config = 30"
  by (simp_all add: uneven_config_def program_config_def)

lemma axes_cell_centred:
  assumes "declared c s" and "NY c \<le> NX c"
  shows "x (initialise c s) =
           map (\<lambda>i. (real i - 0.5) * ((xmax c - xmin c) / real (NX c))) [0..<NX c + 2]
       \<and> take (NY c + 2) (y (initialise c s)) =
           map (\<lambda>j. (real j - 0.5) * ((ymax c - ymin c) / real (NY c))) [0..<NY c + 2]
       \<and> (0 < NX c \<and> xmin c < xmax c \<longrightarrow>
            0 < dx (initialise c s)
          \<and> (\<forall>i k. i < k \<and> k < NX c + 2 \<longrightarrow> x (initialise c s) ! i < x (initialise c s) ! k))
       \<and> (0 < NY c \<and> ymin c < ymax c \<longrightarrow>
            0 < dy (initialise c s)
          \<and> (\<forall>j k. j < k \<and> k < NY c + 2 \<longrightarrow> y (initialise c s) ! j < y (initialise c s) ! k))"
proof (intro conjI impI allI)
  show X: "x (initialise c s) =
           map (\<lambda>i. (real i - 0.5) * ((xmax c - xmin c) / real (NX c))) [0..<NX c + 2]"
    using assms(1) by (rule x_initialise)
  show "take (NY c + 2) (y (initialise c s)) =
           map (\<lambda>j. (real j - 0.5) * ((ymax c - ymin c) / real (NY c))) [0..<NY c + 2]"
    using assms by (rule y_initialise(1))
  {
    assume p: "0 < NX c \<and> xmin c < xmax c"
    then show d: "0 < dx (initialise c s)" by simp
    fix i k assume ik: "i < k \<and> k < NX c + 2"
    then have "x (initialise c s) ! i = (real i - 0.5) * dx (initialise c s)"
      and "x (initialise c s) ! k = (real k - 0.5) * dx (initialise c s)"
      unfolding X by (simp_all del: upt_Suc)
    then show "x (initialise c s) ! i < x (initialise c s) ! k"
      using axis_increasing [OF d, of i k] ik by simp
  }
  {
    assume p: "0 < NY c \<and> ymin c < ymax c"
    then show d: "0 < dy (initialise c s)" by simp
    fix j k assume jk: "j < k \<and> k < NY c + 2"
    then have "y (initialise c s) ! j = (real j - 0.5) * dy (initialise c s)"
      and "y (initialise c s) ! k = (real k - 0.5) * dy (initialise c s)"
      using y_initialise(2) [OF assms, of j] y_initialise(2) [OF assms, of k] by simp_all
    then show "y (initialise c s) ! j < y (initialise c s) ! k"
      using axis_increasing [OF d, of j k] jk by simp
  }
qed

section \<open>The claims\<close>

text \<open>
  Claim C1. In every time step, LOOP 8 leaves \<open>u\<close> as it is and stores in
  \<open>dudt[i][j]\<close>, for every interior point, the upwind rate
  \<open>-(v * (u[i][j] - u[i-1][j]) / dx + vely * (u[i][j] - u[i][j-1]) / dy)\<close> with
  \<open>v = streamwiseVelocity (j * dy)\<close>, all from the field before the update; LOOP 9
  then adds \<open>dudt[i][j] * dt\<close> to every interior point. The field after the two
  loops, and so after the whole step, is the two-phase reference \<open>two_phase_ref\<close>
  applied to the field left by the boundary loops.
\<close>

theorem step_is_two_phase:
  assumes "shape c (u s)" and "shape c (dudt s)"
  shows "u (LOOP8 c s) = u s
       \<and> (\<forall>i j. interior c i j \<longrightarrow> dudt (LOOP8 c s) ! i ! j = dudt_ref c s i j)
       \<and> u (LOOP9 c (LOOP8 c s)) = two_phase_ref c s
       \<and> u (step c s) = two_phase_ref c (LOOP7 c (LOOP6 c s))"
proof -
  let ?b = "LOOP7 c (LOOP6 c s)"
  have ub: "shape c (u ?b)" using assms(1) by (simp add: shape_apply_bc)
  have db: "shape c (dudt ?b)" using assms(2) by simp
  have "u (step c s) = two_phase_ref c ?b"
    unfolding step_def using ub db by (rule LOOP9_LOOP8_ref)
  moreover have "u (LOOP9 c (LOOP8 c s)) = two_phase_ref c s"
    using assms by (rule LOOP9_LOOP8_ref)
  moreover have "\<forall>i j. interior c i j \<longrightarrow> dudt (LOOP8 c s) ! i ! j = dudt_ref c s i j"
    by (simp add: LOOP8_dudt(2) [OF assms(2)] rate_is_ref)
  ultimately show ?thesis by simp
qed

text \<open>
  On the 2 by 2 grid: after the boundary loops \<open>u[0][1] = 1\<close> and \<open>u[1][1] = 0\<close>, the
  coordinate is \<open>1 * 2 > 1\<close>, so the rate at (1,1) is \<open>(0.2/0.41) * ln 2\<close> and the
  new value half of it.
\<close>

theorem step_is_two_phase_witness:
  "shape tiny_config (u tiny_state) \<and> shape tiny_config (dudt tiny_state)
   \<and> u (step tiny_config tiny_state) ! 1 ! 1 = (10 / 41) * ln 2"
proof -
  have h1: "shape tiny_config (u tiny_state)" and h2: "shape tiny_config (dudt tiny_state)"
    by simp_all
  have d: "dims (NX tiny_config + 2) (NY tiny_config + 2) (u tiny_state)"
    using h1 by (simp only: shape_dims)
  have b11: "apply_bc tiny_config (u tiny_state) ! Suc 0 ! Suc 0 = 0"
    using apply_bc_nth [OF d, of 1 1] by simp
  have b01: "apply_bc tiny_config (u tiny_state) ! 0 ! Suc 0 = 1"
    using apply_bc_nth [OF d, of 0 1] by simp
  have b10: "apply_bc tiny_config (u tiny_state) ! Suc 0 ! 0 = 3"
    using apply_bc_nth [OF d, of 1 0] by simp
  have "u (step tiny_config tiny_state) ! 1 ! 1 = (10 / 41) * ln 2"
    using step_is_two_phase [OF h1 h2]
    by (simp add: two_phase_ref_nth interior_def dudt_ref_def streamwiseVelocity_def b11 b01 b10)
  with h1 h2 show ?thesis by simp
qed

text \<open>
  Claim C2. The time step is assigned once, before the first loop, as
  \<open>CFL / (|(0.2/0.41) * ln (ymax / 1.0)| / dx + |vely| / dy)\<close>; no loop of the time
  stepping assigns it, so it has this value after any number of steps. With the
  program's constants \<open>dx = dy = 0.03\<close> and
  \<open>dt = 0.9 / ((0.2/0.41) * ln 30 / 0.03)\<close>.
\<close>

theorem time_step_once:
  "dt (init_dx_dy_dt c s) =
     CFL c / (\<bar>(0.2 / 0.41) * ln (ymax c / 1.0)\<bar> / dx (init_dx_dy_dt c s)
              + \<bar>vely c\<bar> / dy (init_dx_dy_dt c s))
   \<and> dt (steps c m (initialise c s)) = dt (init_dx_dy_dt c s)
   \<and> dx (init_dx_dy_dt program_config s) = 0.03
   \<and> dy (init_dx_dy_dt program_config s) = 0.03
   \<and> dt (steps program_config m (initialise program_config s))
       = 0.9 / ((0.2 / 0.41) * ln 30 / 0.03)"
proof -
  have "dt (init_dx_dy_dt program_config s) = 0.9 / ((0.2 / 0.41) * ln 30 / 0.03)"
    by (simp add: program_config_def)
  moreover have "dx (init_dx_dy_dt program_config s) = 0.03"
    and "dy (init_dx_dy_dt program_config s) = 0.03"
    by (simp_all add: program_config_def)
  ultimately show ?thesis by simp
qed

text \<open>
  The program's own run: after its 800 steps, from zero-filled arrays.
\<close>

theorem time_step_once_witness:
  "dt (steps program_config 800 (initialise program_config (zeroed program_config)))
     = 0.9 / ((0.2 / 0.41) * ln 30 / 0.03)
   \<and> dx (init_dx_dy_dt program_config (zeroed program_config)) = 0.03"
  using time_step_once [of program_config "zeroed program_config" 800] by simp

text \<open>
  Claim C3. For every value \<open>yl\<close> of the loop-local coordinate, the rate LOOP 8 stores
  is the upwind rate with the velocity \<open>streamwiseVelocity yl\<close>; that velocity is
  exactly 0 when \<open>yl \<le> 1\<close> (the \<^verbatim>\<open>else\<close> branch, with its literal 0) and exactly
  \<open>(0.2/0.41) * ln (yl / 1.0)\<close> when \<open>yl > 1\<close>; at \<open>yl = 1\<close> the zero branch is taken.
\<close>

theorem velocity_threshold:
  "LOOP8_rate c s i j yl =
     - (streamwiseVelocity yl * (u s ! i ! j - u s ! (i - 1) ! j) / dx s
        + vely c * (u s ! i ! j - u s ! i ! (j - 1)) / dy s)
   \<and> (yl \<le> 1 \<longrightarrow> streamwiseVelocity yl = 0
        \<and> LOOP8_rate c s i j yl =
            - (0 * (u s ! i ! j - u s ! (i - 1) ! j) / dx s
               + vely c * (u s ! i ! j - u s ! i ! (j - 1)) / dy s))
   \<and> (yl > 1 \<longrightarrow> streamwiseVelocity yl = (0.2 / 0.41) * ln (yl / 1.0)
        \<and> LOOP8_rate c s i j yl =
            - ((0.2 / 0.41) * ln (yl / 1.0) * (u s ! i ! j - u s ! (i - 1) ! j) / dx s
               + vely c * (u s ! i ! j - u s ! i ! (j - 1)) / dy s))
   \<and> streamwiseVelocity 1 = 0
   \<and> LOOP8_rate c s i j 1 = - (vely c * (u s ! i ! j - u s ! i ! (j - 1)) / dy s)"
  by (simp add: LOOP8_rate_def streamwiseVelocity_def Let_def)

text \<open>
  On the 2 by 2 grid after the boundary loops, at the point (1,1), where
  \<open>u[1][1] - u[0][1] = -1\<close> and \<open>dx = 1\<close>: the rate is the velocity itself.
\<close>

theorem velocity_threshold_witness:
  "LOOP8_rate tiny_config (LOOP7 tiny_config (LOOP6 tiny_config tiny_state)) 1 1 1 = 0
   \<and> LOOP8_rate tiny_config (LOOP7 tiny_config (LOOP6 tiny_config tiny_state)) 1 1 (1 / 2) = 0
   \<and> LOOP8_rate tiny_config (LOOP7 tiny_config (LOOP6 tiny_config tiny_state)) 1 1 2
       = (20 / 41) * ln 2"
proof -
  let ?b = "LOOP7 tiny_config (LOOP6 tiny_config tiny_state)"
  have d: "dims (NX tiny_config + 2) (NY tiny_config + 2) (u tiny_state)"
    using shape_tiny_state(1) by (simp only: shape_dims)
  have b11: "apply_bc tiny_config (u tiny_state) ! Suc 0 ! Suc 0 = 0"
    using apply_bc_nth [OF d, of 1 1] by simp
  have b01: "apply_bc tiny_config (u tiny_state) ! 0 ! Suc 0 = 1"
    using apply_bc_nth [OF d, of 0 1] by simp
  show ?thesis
    using velocity_threshold [of tiny_config ?b 1 1 1]
      velocity_threshold [of tiny_config ?b 1 1 "1 / 2"]
      velocity_threshold [of tiny_config ?b 1 1 2]
    by (simp add: b11 b01)
qed

text \<open>
  Claim C4 says that after every step \<open>u[0][j] = bval_left\<close> for all \<open>j\<close>. With the
  program's constants and \<open>bval_left = 1\<close>, the corner \<open>u[0][0]\<close> holds
  \<open>bval_lower = 0\<close> after the first step: LOOP 7 runs after LOOP 6 and overwrites it.
\<close>

theorem ghost_cells_counterexample:
  "u (steps left_one_config 1 (initialise left_one_config (zeroed left_one_config))) ! 0 ! 0
     \<noteq> bval_left left_one_config"
proof -
  let ?c = left_one_config
  let ?s = "initialise ?c (zeroed ?c)"
  have sh: "shape ?c (u ?s)" "shape ?c (dudt ?s)"
    using declared_zeroed [of ?c] by (rule shape_initialise)+
  have "u (steps ?c (Suc 0) ?s) ! 0 ! 0 = bval_lower ?c"
    using u_steps_ghost [OF sh, of 0 0 0] by (simp add: interior_def)
  then show ?thesis
    by (simp add: left_one_config_def program_config_def)
qed

text \<open>
  Claim C4, amended. After every completed step, for all \<open>i\<close> in \<open>[0, NX+1]\<close>,
  \<open>u[i][0] = bval_lower\<close> and \<open>u[i][NY+1] = bval_upper\<close>, and for all \<open>j\<close> in
  \<open>[1, NY]\<close>, \<open>u[0][j] = bval_left\<close> and \<open>u[NX+1][j] = bval_right\<close>. The four corners
  hold the lower and upper values; the equalities for the left and right columns hold
  for all \<open>j\<close> when the boundary values agree there, as the program's constants do.
\<close>

theorem ghost_cells_after_step:
  assumes "shape c (u s)" and "shape c (dudt s)"
  shows "(\<forall>i<NX c + 2. u (steps c (Suc m) s) ! i ! 0 = bval_lower c
                      \<and> u (steps c (Suc m) s) ! i ! (NY c + 1) = bval_upper c)
       \<and> (\<forall>j. 1 \<le> j \<and> j \<le> NY c \<longrightarrow>
                u (steps c (Suc m) s) ! 0 ! j = bval_left c
              \<and> u (steps c (Suc m) s) ! (NX c + 1) ! j = bval_right c)
       \<and> (bval_left c = bval_lower c \<and> bval_left c = bval_upper c
          \<and> bval_right c = bval_lower c \<and> bval_right c = bval_upper c \<longrightarrow>
            (\<forall>j<NY c + 2. u (steps c (Suc m) s) ! 0 ! j = bval_left c
                           \<and> u (steps c (Suc m) s) ! (NX c + 1) ! j = bval_right c))"
proof (intro conjI allI impI)
  fix i assume i: "i < NX c + 2"
  show "u (steps c (Suc m) s) ! i ! 0 = bval_lower c"
    using u_steps_ghost [OF assms i, of 0 m] by (simp add: interior_def)
  show "u (steps c (Suc m) s) ! i ! (NY c + 1) = bval_upper c"
    using u_steps_ghost [OF assms i, of "NY c + 1" m] by (simp add: interior_def)
next
  fix j assume j: "1 \<le> j \<and> j \<le> NY c"
  show "u (steps c (Suc m) s) ! 0 ! j = bval_left c"
    using u_steps_ghost [OF assms, of 0 j m] j by (simp add: interior_def)
  show "u (steps c (Suc m) s) ! (NX c + 1) ! j = bval_right c"
    using u_steps_ghost [OF assms, of "NX c + 1" j m] j by (simp add: interior_def)
next
  fix j
  assume e: "bval_left c = bval_lower c \<and> bval_left c = bval_upper c
          \<and> bval_right c = bval_lower c \<and> bval_right c = bval_upper c"
    and j: "j < NY c + 2"
  show "u (steps c (Suc m) s) ! 0 ! j = bval_left c"
    using u_steps_ghost [OF assms, of 0 j m] j e by (simp add: interior_def)
  show "u (steps c (Suc m) s) ! (NX c + 1) ! j = bval_right c"
    using u_steps_ghost [OF assms, of "NX c + 1" j m] j e by (simp add: interior_def)
qed

text \<open>
  On the 2 by 2 grid with boundary values 1, 2, 3, 4 (left, right, lower, upper).
\<close>

theorem ghost_cells_after_step_witness:
  "shape tiny_config (u tiny_state) \<and> shape tiny_config (dudt tiny_state)
   \<and> u (steps tiny_config 1 tiny_state) ! 0 ! 0 = 3
   \<and> u (steps tiny_config 1 tiny_state) ! 0 ! 1 = 1
   \<and> u (steps tiny_config 1 tiny_state) ! 3 ! 2 = 2
   \<and> u (steps tiny_config 1 tiny_state) ! 0 ! 3 = 4"
  using ghost_cells_after_step [of tiny_config tiny_state 0] by simp

text \<open>
  Claim C5. Before the time loop, for every point of the full \<open>(NX+2) \<times> (NY+2)\<close>
  array, ghost cells included, \<open>u[i][j]\<close> is
  \<open>exp (-((x[i]-x0)\<^sup>2 / (2 sigmax\<^sup>2) + (y[j]-y0)\<^sup>2 / (2 sigmay\<^sup>2)))\<close>, where
  \<open>x[i] = (i - 0.5) * dx\<close> and \<open>y[j] = (j - 0.5) * dy\<close> are the cell-centred axis
  values. The array \<^verbatim>\<open>y\<close> has \<open>NX+2\<close> entries, so \<open>NY \<le> NX\<close> keeps every \<open>y[j]\<close>
  inside it.
\<close>

theorem gaussian_initial_condition:
  assumes "declared c s" and "NY c \<le> NX c"
  shows "\<forall>i<NX c + 2. \<forall>j<NY c + 2.
           x (initialise c s) ! i = (real i - 0.5) * dx (initialise c s)
         \<and> y (initialise c s) ! j = (real j - 0.5) * dy (initialise c s)
         \<and> u (initialise c s) ! i ! j =
             exp (- ((x (initialise c s) ! i - x0 c)\<^sup>2 / (2 * (sigmax c)\<^sup>2)
                     + (y (initialise c s) ! j - y0 c)\<^sup>2 / (2 * (sigmay c)\<^sup>2)))"
proof (intro allI impI conjI)
  fix i j assume i: "i < NX c + 2" and j: "j < NY c + 2"
  show "x (initialise c s) ! i = (real i - 0.5) * dx (initialise c s)"
    unfolding x_initialise [OF assms(1)] using i by (simp del: upt_Suc)
  show "y (initialise c s) ! j = (real j - 0.5) * dy (initialise c s)"
    using y_initialise(2) [OF assms j] by simp
  show "u (initialise c s) ! i ! j =
             exp (- ((x (initialise c s) ! i - x0 c)\<^sup>2 / (2 * (sigmax c)\<^sup>2)
                     + (y (initialise c s) ! j - y0 c)\<^sup>2 / (2 * (sigmay c)\<^sup>2)))"
    unfolding u_initialise [OF assms(1) i j]
    by (simp add: LOOP3_value_def Let_def sigmax2_def sigmay2_def power2_eq_square)
qed

text \<open>
  On the 2 by 2 grid with centre (1,1) and widths 1: \<open>x[1] = 1/2\<close>, \<open>y[1] = 1\<close>.
\<close>

theorem gaussian_initial_condition_witness:
  "declared tiny_config (zeroed tiny_config) \<and> NY tiny_config \<le> NX tiny_config
   \<and> x (initialise tiny_config (zeroed tiny_config)) ! 1 = 1 / 2
   \<and> y (initialise tiny_config (zeroed tiny_config)) ! 1 = 1
   \<and> u (initialise tiny_config (zeroed tiny_config)) ! 1 ! 1 = exp (- (1 / 8))"
proof -
  have h1: "declared tiny_config (zeroed tiny_config)" by (rule declared_zeroed)
  have h2: "NY tiny_config \<le> NX tiny_config" by simp
  have "(1::nat) < NX tiny_config + 2" and "(1::nat) < NY tiny_config + 2" by simp_all
  note G = gaussian_initial_condition [OF h1 h2, rule_format, OF this]
  from G have X: "x (initialise tiny_config (zeroed tiny_config)) ! 1 = 1 / 2"
    by simp
  from G have Y: "y (initialise tiny_config (zeroed tiny_config)) ! 1 = 1"
    by simp
  from G have "u (initialise tiny_config (zeroed tiny_config)) ! 1 ! 1 = exp (- (1 / 8))"
    unfolding X Y by (simp add: power2_eq_square)
  with X Y have "x (initialise tiny_config (zeroed tiny_config)) ! 1 = 1 / 2
      \<and> y (initialise tiny_config (zeroed tiny_config)) ! 1 = 1
      \<and> u (initialise tiny_config (zeroed tiny_config)) ! 1 ! 1 = exp (- (1 / 8))"
    by simp
  then show ?thesis using h1 h2 by simp
qed

text \<open>
  Claim C6 says that \<open>u\<close> is unchanged by any number of steps when \<open>vely = 0\<close> and
  the velocity is zero at every coordinate used. With the program's constants and
  \<open>ymax = 0.5\<close> every coordinate \<open>j * dy\<close> is at most \<open>0.5\<close>, yet the first step
  replaces the Gaussian value of the ghost cell \<open>u[0][0]\<close>, which is not zero, by
  the boundary value 0.
\<close>

theorem no_advection_counterexample:
  "vely low_config = 0
   \<and> 0 \<le> dy (initialise low_config (zeroed low_config))
   \<and> LOOP8_y (initialise low_config (zeroed low_config)) (NY low_config) \<le> 1
   \<and> streamwiseVelocity (LOOP8_y (initialise low_config (zeroed low_config)) (NY low_config)) = 0
   \<and> u (steps low_config 1 (initialise low_config (zeroed low_config))) ! 0 ! 0
       \<noteq> u (initialise low_config (zeroed low_config)) ! 0 ! 0"
proof -
  let ?c = low_config
  let ?s = "initialise ?c (zeroed ?c)"
  have v: "vely ?c = 0" by (simp add: low_config_def program_config_def)
  have yl: "LOOP8_y ?s (NY ?c) = 0.5"
    by (simp add: LOOP8_y_def low_config_def program_config_def)
  have sh: "shape ?c (u ?s)" "shape ?c (dudt ?s)"
    using declared_zeroed [of ?c] by (rule shape_initialise)+
  have "u (steps ?c (Suc 0) ?s) ! 0 ! 0 = bval_lower ?c"
    using u_steps_ghost [OF sh, of 0 0 0] by (simp add: interior_def)
  then have after: "u (steps ?c 1 ?s) ! 0 ! 0 = 0"
    by (simp add: low_config_def program_config_def)
  have "u ?s ! 0 ! 0 = LOOP3_value ?c ?s 0 0"
    using u_initialise [OF declared_zeroed, of 0 ?c 0] by simp
  then have before: "u ?s ! 0 ! 0 \<noteq> 0"
    by (simp add: LOOP3_value_def)
  have "0 \<le> dy ?s" by (simp add: low_config_def program_config_def)
  then show ?thesis
    using v after before by (simp add: yl streamwiseVelocity_def)
qed

text \<open>
  Claim C6, amended. Let the arrays be as declared with \<open>NY \<le> NX\<close>, let \<open>NX\<close>, \<open>NY\<close>
  and both extents be positive and the widths not zero, and let \<open>ymax > 0\<close> and
  \<open>ymax \<noteq> 1\<close>, so that the divisor of the time step on line 77 is positive and
  \<open>dt\<close> is a finite quotient. If \<open>vely = 0\<close> and every coordinate \<open>j * dy\<close> used by
  LOOP 8 is at most 1 (the velocity is zero there), then after any number of steps
  from the initial field every interior value \<open>u[i][j]\<close> is unchanged, and after one
  or more steps \<open>u\<close> is the initial field with the boundary values written into its
  ghost cells. The case \<open>ymax = 1\<close>, where line 77 divides by zero, is left out.
\<close>

theorem no_advection_interior_unchanged:
  assumes "declared c s" and "NY c \<le> NX c"
    and "0 < NX c" and "0 < NY c" and "xmin c < xmax c" and "ymin c < ymax c"
    and "0 < ymax c" and "ymax c \<noteq> 1"
    and "sigmax c \<noteq> 0" and "sigmay c \<noteq> 0"
    and "vely c = 0"
    and "\<forall>j. 1 \<le> j \<and> j \<le> NY c \<longrightarrow> LOOP8_y (initialise c s) j \<le> 1"
  shows "0 < \<bar>(0.2 / 0.41) * ln (ymax c / 1.0)\<bar> / dx (initialise c s)
             + \<bar>vely c\<bar> / dy (initialise c s)
       \<and> (\<forall>i j. interior c i j \<longrightarrow>
              u (steps c n (initialise c s)) ! i ! j = u (initialise c s) ! i ! j)
       \<and> u (steps c (Suc n) (initialise c s)) = u (LOOP7 c (LOOP6 c (initialise c s)))"
proof -
  let ?s = "initialise c s"
  note sh = shape_initialise [OF assms(1)]
  note S = steps_still [OF sh assms(11,12)]
  have "u (steps c n ?s) ! i ! j = u ?s ! i ! j" if "interior c i j" for i j
  proof (cases n)
    case 0
    then show ?thesis by simp
  next
    case (Suc k)
    from that have ij: "i < NX c + 2" "j < NY c + 2" by (simp_all add: interior_def)
    have "u (steps c n ?s) ! i ! j = u (LOOP7 c (LOOP6 c ?s)) ! i ! j"
      unfolding Suc S by simp
    also have "\<dots> = u ?s ! i ! j"
      unfolding u_bc [OF sh(1) ij] using that by (simp add: interior_def)
    finally show ?thesis .
  qed
  moreover note time_step_divisor [OF assms(3,5,4,6,7,8), of s]
  ultimately show ?thesis using S [of n] by simp
qed

text \<open>
  The program's constants with \<open>ymax = 0.5\<close>, from zero-filled arrays: the largest
  coordinate is \<open>1000 * 0.0005 = 0.5\<close>, and after the program's 800 steps the
  interior cell (500, 1000) holds its initial value.
\<close>

theorem no_advection_interior_unchanged_witness:
  "declared low_config (zeroed low_config) \<and> NY low_config \<le> NX low_config
   \<and> 0 < NX low_config \<and> 0 < NY low_config
   \<and> xmin low_config < xmax low_config \<and> ymin low_config < ymax low_config
   \<and> 0 < ymax low_config \<and> ymax low_config \<noteq> 1
   \<and> sigmax low_config \<noteq> 0 \<and> sigmay low_config \<noteq> 0 \<and> vely low_config = 0
   \<and> LOOP8_y (initialise low_config (zeroed low_config)) 1000 \<le> 1
   \<and> interior low_config 500 1000
   \<and> u (steps low_config 800 (initialise low_config (zeroed low_config))) ! 500 ! 1000
       = u (initialise low_config (zeroed low_config)) ! 500 ! 1000
   \<and> u (steps low_config 800 (initialise low_config (zeroed low_config)))
       = u (LOOP7 low_config (LOOP6 low_config (initialise low_config (zeroed low_config))))"
proof -
  let ?c = low_config
  let ?s = "initialise ?c (zeroed ?c)"
  have h1: "declared ?c (zeroed ?c)" by (rule declared_zeroed)
  have h: "NY ?c \<le> NX ?c" "0 < NX ?c" "0 < NY ?c" "xmin ?c < xmax ?c" "ymin ?c < ymax ?c"
    "0 < ymax ?c" "ymax ?c \<noteq> 1" "sigmax ?c \<noteq> 0" "sigmay ?c \<noteq> 0" "vely ?c = 0"
    by (simp_all add: low_config_def program_config_def)
  have hy: "\<forall>j. 1 \<le> j \<and> j \<le> NY ?c \<longrightarrow> LOOP8_y ?s j \<le> 1"
  proof (intro allI impI)
    fix j :: nat assume "1 \<le> j \<and> j \<le> NY ?c"
    then have "real j \<le> 1000" by (simp add: low_config_def program_config_def)
    then show "LOOP8_y ?s j \<le> 1"
      by (simp add: LOOP8_y_def low_config_def program_config_def)
  qed
  note T = no_advection_interior_unchanged [OF h1 h hy]
  have y1000: "LOOP8_y ?s 1000 \<le> 1"
    by (simp add: LOOP8_y_def low_config_def program_config_def)
  have int: "interior ?c 500 1000"
    by (simp add: interior_def low_config_def program_config_def)
  from T [of 800] int
  have c1: "u (steps ?c 800 ?s) ! 500 ! 1000 = u ?s ! 500 ! 1000" by blast
  from T [of 799] have c2: "u (steps ?c (Suc 799) ?s) = u (LOOP7 ?c (LOOP6 ?c ?s))" by blast
  have "Suc 799 = 800" by simp
  with c2 have c3: "u (steps ?c 800 ?s) = u (LOOP7 ?c (LOOP6 ?c ?s))" by (simp only:)
  show ?thesis
    using h1 h y1000 int c1 c3 by (simp only: simp_thms)
qed

text \<open>
  Claim C7 says that each axis has exactly \<open>N+2\<close> entries. Line 63 declares
  \<^verbatim>\<open>float y[NX+2]\<close>, with the number of cells in x. With the program's constants and
  \<open>NX = 3\<close>, \<open>NY = 2\<close>, the array \<^verbatim>\<open>x\<close> has \<open>NX+2 = 5\<close> entries, and the array
  \<^verbatim>\<open>y\<close> has 5 entries too, not \<open>NY+2 = 4\<close>: LOOP 2 sets the first four to
  \<open>(j - 0.5) * dy\<close> with \<open>dy = 15\<close>, and no loop writes the fifth. With \<open>NX = 2\<close>,
  \<open>NY = 3\<close> the array \<^verbatim>\<open>y\<close> has 4 entries, and the last index LOOP 2 writes,
  \<open>NY+1 = 4\<close>, lies outside it.
\<close>

theorem y_axis_declared_with_NX:
  "declared uneven_config (zeroed uneven_config)
   \<and> length (x (initialise uneven_config (zeroed uneven_config))) = 5
   \<and> NX uneven_config + 2 = 5
   \<and> length (y (initialise uneven_config (zeroed uneven_config))) = 5
   \<and> NY uneven_config + 2 = 4
   \<and> take 4 (y (initialise uneven_config (zeroed uneven_config)))
       = [- (15 / 2), 15 / 2, 45 / 2, 75 / 2]
   \<and> declared tall_config (zeroed tall_config)
   \<and> length (y (zeroed tall_config)) = 4
   \<and> NY tall_config + 1 = 4"
proof -
  let ?c = uneven_config
  have d: "declared ?c (zeroed ?c)" by (rule declared_zeroed)
  have le: "NY ?c \<le> NX ?c" by simp
  have lx: "length (x (initialise ?c (zeroed ?c))) = 5"
    unfolding x_initialise [OF d] by simp
  have ly: "length (y (initialise ?c (zeroed ?c))) = 5"
    using y_length_declared [OF d] by simp
  have ty: "take 4 (y (initialise ?c (zeroed ?c))) = [- (15 / 2), 15 / 2, 45 / 2, 75 / 2]"
    using y_initialise(1) [OF d le] by (simp add: upt_rec)
  have t: "declared tall_config (zeroed tall_config)" by (rule declared_zeroed)
  have tl: "length (y (zeroed tall_config)) = 4" "NY tall_config + 1 = 4"
    by (simp_all add: zeroed_def tall_config_def program_config_def)
  show ?thesis using d lx ly ty t tl by simp
qed

text \<open>
  Claim C8. The row written to average.dat for each \<open>i\<close> holds \<open>x[i]\<close> and the sum
  of \<open>u[i][j]\<close> over all \<open>j\<close> from 0 to \<open>NY+1\<close>, both ghost cells included, divided
  by \<open>NY\<close>.
\<close>

theorem vertical_average_divisor:
  "LOOP11 c s =
     map (\<lambda>i. (x s ! i, (\<Sum>j = 0..<NY c + 2. u s ! i ! j) / real (NY c))) [0..<NX c + 2]"
  by (rule LOOP11_rows)

text \<open>
  Row 1 of the 2 by 2 grid after the boundary loops is \<open>3, 0, 0, 4\<close>: the value is
  \<open>7 / 2\<close>, the sum over four cells divided by \<open>NY = 2\<close>.
\<close>

theorem vertical_average_divisor_witness:
  "snd (LOOP11 tiny_config (LOOP7 tiny_config (LOOP6 tiny_config tiny_state)) ! 1) = 7 / 2"
proof -
  let ?b = "LOOP7 tiny_config (LOOP6 tiny_config tiny_state)"
  have d: "dims (NX tiny_config + 2) (NY tiny_config + 2) (u tiny_state)"
    using shape_tiny_state(1) by (simp only: shape_dims)
  have b: "apply_bc tiny_config (u tiny_state) ! Suc 0 ! 0 = 3"
    "apply_bc tiny_config (u tiny_state) ! Suc 0 ! Suc 0 = 0"
    "apply_bc tiny_config (u tiny_state) ! Suc 0 ! Suc (Suc 0) = 0"
    "apply_bc tiny_config (u tiny_state) ! Suc 0 ! Suc (Suc (Suc 0)) = 4"
    using apply_bc_nth [OF d, of 1 0] apply_bc_nth [OF d, of 1 1]
      apply_bc_nth [OF d, of 1 "Suc (Suc 0)"] apply_bc_nth [OF d, of 1 "Suc (Suc (Suc 0))"]
    by simp_all
  have "(\<Sum>j = 0..<4. apply_bc tiny_config (u tiny_state) ! Suc 0 ! j) = 7"
    by (simp add: b numeral_eq_Suc)
  then show ?thesis
    using vertical_average_divisor [of tiny_config ?b] by (simp del: upt_Suc)
qed

text \<open>
  Claim C9. In every step, the coordinate LOOP 8 uses for row \<open>j\<close> is \<open>j * dy\<close>, not
  the axis value \<open>y[j] = (j - 0.5) * dy\<close>; for every interior \<open>j\<close> it exceeds the axis
  value by exactly \<open>dy / 2\<close>.
\<close>

theorem velocity_coordinate_offset:
  assumes "declared c s" and "NY c \<le> NX c"
  shows "\<forall>m i j. interior c i j \<longrightarrow>
           dudt (LOOP8 c (LOOP7 c (LOOP6 c (steps c m (initialise c s))))) ! i ! j
             = LOOP8_rate c (LOOP7 c (LOOP6 c (steps c m (initialise c s)))) i j
                 (real j * dy (initialise c s))
         \<and> y (steps c m (initialise c s)) ! j = (real j - 0.5) * dy (initialise c s)
         \<and> real j * dy (initialise c s) - y (steps c m (initialise c s)) ! j
             = dy (initialise c s) / 2"
proof (intro allI impI)
  fix m i j assume int: "interior c i j"
  let ?t = "steps c m (initialise c s)"
  let ?b = "LOOP7 c (LOOP6 c ?t)"
  from shape_initialise [OF assms(1)] shape_steps [of c "initialise c s" m]
  have "shape c (dudt ?t)" by simp
  then have db: "shape c (dudt ?b)" by simp
  have r: "dudt (LOOP8 c ?b) ! i ! j = LOOP8_rate c ?b i j (real j * dy (initialise c s))"
    unfolding LOOP8_dudt(2) [OF db] using int by (simp add: LOOP8_y_def)
  from int have "j < NY c + 2" by (simp add: interior_def)
  from y_initialise(2) [OF assms this]
  have yj: "y ?t ! j = (real j - 0.5) * dy (initialise c s)" by simp
  have "real j * dy (initialise c s) - y ?t ! j = dy (initialise c s) / 2"
    unfolding yj by (rule half_cell)
  with r yj show "dudt (LOOP8 c ?b) ! i ! j
             = LOOP8_rate c ?b i j (real j * dy (initialise c s))
         \<and> y ?t ! j = (real j - 0.5) * dy (initialise c s)
         \<and> real j * dy (initialise c s) - y ?t ! j = dy (initialise c s) / 2"
    by simp
qed

text \<open>
  On the 2 by 2 grid, row 2 in the second step: the coordinate is 4, the axis value 3.
\<close>

theorem velocity_coordinate_offset_witness:
  "declared tiny_config (zeroed tiny_config) \<and> NY tiny_config \<le> NX tiny_config
   \<and> interior tiny_config 1 2
   \<and> y (steps tiny_config 1 (initialise tiny_config (zeroed tiny_config))) ! 2 = 3
   \<and> real 2 * dy (initialise tiny_config (zeroed tiny_config))
       - y (steps tiny_config 1 (initialise tiny_config (zeroed tiny_config))) ! 2 = 1"
proof -
  have h1: "declared tiny_config (zeroed tiny_config)" by (rule declared_zeroed)
  have h2: "NY tiny_config \<le> NX tiny_config" by simp
  have h3: "interior tiny_config 1 2" by (simp add: interior_def)
  from velocity_coordinate_offset [OF h1 h2, rule_format, OF h3, of 1]
  show ?thesis using h1 h2 h3 by simp
qed

text \<open>
  Claim C10. In each step LOOP 6 (left and right columns) runs before LOOP 7 (lower and
  upper rows): after LOOP 6 the four corners hold the left and right values, and after
  LOOP 7 they hold \<open>bval_lower\<close> (at \<open>j = 0\<close>) and \<open>bval_upper\<close> (at \<open>j = NY+1\<close>).
\<close>

theorem boundary_order_corners:
  assumes "shape c (u s)"
  shows "u (LOOP6 c s) ! 0 ! 0 = bval_left c
       \<and> u (LOOP6 c s) ! 0 ! (NY c + 1) = bval_left c
       \<and> u (LOOP6 c s) ! (NX c + 1) ! 0 = bval_right c
       \<and> u (LOOP6 c s) ! (NX c + 1) ! (NY c + 1) = bval_right c
       \<and> u (LOOP7 c (LOOP6 c s)) ! 0 ! 0 = bval_lower c
       \<and> u (LOOP7 c (LOOP6 c s)) ! 0 ! (NY c + 1) = bval_upper c
       \<and> u (LOOP7 c (LOOP6 c s)) ! (NX c + 1) ! 0 = bval_lower c
       \<and> u (LOOP7 c (LOOP6 c s)) ! (NX c + 1) ! (NY c + 1) = bval_upper c
       \<and> step c s = LOOP9 c (LOOP8 c (LOOP7 c (LOOP6 c s)))"
proof -
  note A = u_LOOP6 [OF assms]
  have "u (LOOP7 c (LOOP6 c s)) ! 0 ! 0 = bval_lower c"
    using u_bc [OF assms, of 0 0] by simp
  moreover have "u (LOOP7 c (LOOP6 c s)) ! 0 ! (NY c + 1) = bval_upper c"
    using u_bc [OF assms, of 0 "NY c + 1"] by simp
  moreover have "u (LOOP7 c (LOOP6 c s)) ! (NX c + 1) ! 0 = bval_lower c"
    using u_bc [OF assms, of "NX c + 1" 0] by simp
  moreover have "u (LOOP7 c (LOOP6 c s)) ! (NX c + 1) ! (NY c + 1) = bval_upper c"
    using u_bc [OF assms, of "NX c + 1" "NY c + 1"] by simp
  ultimately show ?thesis by (simp add: A step_def)
qed

text \<open>
  On the 2 by 2 grid with boundary values 1, 2, 3, 4 (left, right, lower, upper).
\<close>

theorem boundary_order_corners_witness:
  "shape tiny_config (u tiny_state)
   \<and> u (LOOP6 tiny_config tiny_state) ! 0 ! 0 = 1
   \<and> u (LOOP6 tiny_config tiny_state) ! 3 ! 3 = 2
   \<and> u (LOOP7 tiny_config (LOOP6 tiny_config tiny_state)) ! 0 ! 0 = 3
   \<and> u (LOOP7 tiny_config (LOOP6 tiny_config tiny_state)) ! 0 ! 3 = 4
   \<and> u (LOOP7 tiny_config (LOOP6 tiny_config tiny_state)) ! 3 ! 0 = 3
   \<and> u (LOOP7 tiny_config (LOOP6 tiny_config tiny_state)) ! 3 ! 3 = 4"
  using boundary_order_corners [of tiny_config tiny_state] by simp

end
